(* ===== verification/Go_Base.thy ===== *)
theory Go_Base
  imports Main "HOL-Library.Word"
begin

text \<open>
  The prelude of the development: what the modelled packages use of the Go language and of
  its standard library, and the generic lemmas the component theories share.

  \<^item> \<open>int\<close> and \<open>time.Duration\<close> are 64-bit two's complement integers. They are kept as HOL
    integers, and every operation of the source that can leave the range is wrapped by
    \<open>i64\<close>.
  \<^item> \<open>time.Time\<close> is an instant in nanoseconds on one time line (an unbounded \<open>int\<close>);
    \<open>Sub\<close> saturates at the limits of a Duration, as the library documents.
  \<^item> A call that a goroutine makes ends in an \<open>outcome\<close>: it returns, it panics, or it stays
    blocked. A \<open>func() error\<close> is an \<open>action\<close>: a function from the world to an outcome and a
    new world.
  \<^item> An \<open>error\<close> interface value is \<open>goerror option\<close>, where \<open>None\<close> is the nil interface. A
    non-nil one holds a pointer to an \<open>errs.Error\<close> (which may be a nil pointer), a
    \<open>core.UnitError\<close>, or an error of some other type, of which the packages see the
    identity, the text, the result of its \<open>As\<close> method and the errors it unwraps to.
\<close>

named_theorems go_arith
named_theorems go_state

section \<open>Integers, durations and instants\<close>

type_synonym duration = int
type_synonym instant = int
type_synonym addr = nat

definition i64 :: "int \<Rightarrow> int" where
  "i64 x = (x + 2 ^ 63) mod 2 ^ 64 - 2 ^ 63"

definition is_i64 :: "int \<Rightarrow> bool" where
  "is_i64 x \<longleftrightarrow> - (2 ^ 63) \<le> x \<and> x < 2 ^ 63"

definition minDuration :: duration where
  "minDuration = - (2 ^ 63)"

definition maxDuration :: duration where
  "maxDuration = 2 ^ 63 - 1"

definition Second :: duration where
  "Second = 1000000000"

definition Hour :: duration where
  "Hour = 3600 * Second"

text \<open>The zero \<open>time.Time\<close>, January 1 of year 1, on the Unix time line.\<close>

definition zero_Time :: instant where
  "zero_Time = - 62135596800 * Second"

definition time_Add :: "instant \<Rightarrow> duration \<Rightarrow> instant" where
  "time_Add t d = t + d"

definition time_Sub :: "instant \<Rightarrow> instant \<Rightarrow> duration" where
  "time_Sub t u = max minDuration (min maxDuration (t - u))"

definition time_After :: "instant \<Rightarrow> instant \<Rightarrow> bool" where
  "time_After t u \<longleftrightarrow> u < t"

section \<open>Calls and errors\<close>

datatype 'a outcome = Returns 'a | Panics string | Blocks

text \<open>
  The struct \<open>UnitError\<close> of \<^verbatim>\<open>src/spi/core/policy.go\<close> has an \<open>error\<close> as its cause, so the two types
  are mutually recursive; its three methods are what a caller of the interface reaches.
\<close>

datatype UnitError = UnitError (ueCode: string) (ueClass: string) (ueMessage: string) (ueCause: "goerror option")
  and goerror =
    ErrsPtr "addr option"
  | UnitErr UnitError
  | Foreign (identity: addr) (err_text: string) (as_errs: "addr option option") (unwraps: "goerror list")

definition UnitError_Error :: "UnitError \<Rightarrow> string" where
  "UnitError_Error e = ueMessage e"

definition UnitError_Unwrap :: "UnitError \<Rightarrow> goerror option" where
  "UnitError_Unwrap e = ueCause e"

definition UnitError_ErrorClass :: "UnitError \<Rightarrow> string" where
  "UnitError_ErrorClass e = ueClass e"

type_synonym 'w action = "'w \<Rightarrow> goerror option outcome \<times> 'w"

text \<open>A \<open>context.Context\<close>: the instant at which its channel closes, if it does, and its error.\<close>

record go_context =
  done_at :: "instant option"
  ctx_err :: goerror

section \<open>Shared lemmas\<close>

lemma size_Unwrap [termination_simp]: "UnitError_Unwrap u = Some e \<Longrightarrow> size e < Suc (size u)"
  by (cases u) (simp add: UnitError_Unwrap_def)

lemma is_i64_i64 [simp, intro]: "is_i64 (i64 x)"
proof -
  have "0 \<le> (x + 2 ^ 63) mod 2 ^ 64" and "(x + 2 ^ 63) mod 2 ^ 64 < 2 ^ 64"
    by (simp_all add: pos_mod_sign pos_mod_bound)
  then show ?thesis by (simp add: is_i64_def i64_def)
qed

lemma i64_id [go_arith]: "is_i64 x \<Longrightarrow> i64 x = x"
  by (simp add: is_i64_def i64_def)

lemma i64_nonneg_id [go_arith]: "0 \<le> x \<Longrightarrow> x < 2 ^ 63 \<Longrightarrow> i64 x = x"
  by (rule i64_id) (simp add: is_i64_def)

lemma time_Sub_ge_iff [go_arith]:
  assumes "0 < d" and "d \<le> maxDuration"
  shows "d \<le> time_Sub t u \<longleftrightarrow> u + d \<le> t"
  using assms by (auto simp: time_Sub_def maxDuration_def minDuration_def)

lemma time_After_Add_iff [go_arith]: "time_After t (time_Add u d) \<longleftrightarrow> u + d < t"
  by (simp add: time_After_def time_Add_def)

text \<open>
  A Go \<^verbatim>\<open>for k, v := range m\<close> visits every key once, in no particular order: an
  enumeration of the map is any list that holds each binding exactly once.
\<close>

definition enumerates :: "('k \<times> 'v) list \<Rightarrow> ('k \<rightharpoonup> 'v) \<Rightarrow> bool" where
  "enumerates kvs m \<longleftrightarrow> distinct (map fst kvs) \<and> map_of kvs = m"

lemma enumerates_mem: "enumerates kvs m \<Longrightarrow> (k, v) \<in> set kvs \<longleftrightarrow> m k = Some v"
  by (auto simp: enumerates_def)

lemma enumerates_rev: "enumerates kvs m \<Longrightarrow> map_of (rev kvs) = m"
  by (auto simp: enumerates_def rev_map [symmetric] map_of_inject_set)

lemma enumerates_Nil [simp]: "enumerates [] m \<longleftrightarrow> m = Map.empty"
  by (auto simp: enumerates_def)

lemma enumerates_finite: "enumerates kvs m \<Longrightarrow> finite (dom m)"
  by (auto simp: enumerates_def finite_dom_map_of)

lemma enumerates_exists:
  assumes "finite (dom m)"
  shows "\<exists>kvs. enumerates kvs m"
proof -
  obtain ks where ks: "set ks = dom m" "distinct ks"
    using finite_distinct_list [OF assms] by blast
  let ?kvs = "map (\<lambda>k. (k, the (m k))) ks"
  have "map_of ?kvs k = m k" for k
  proof (cases "k \<in> dom m")
    case True
    then show ?thesis using ks by (auto simp: map_of_map_restrict)
  next
    case False
    then show ?thesis using ks by (auto simp: map_of_map_restrict restrict_map_def)
  qed
  then have "enumerates ?kvs m"
    using ks by (auto simp: enumerates_def comp_def)
  then show ?thesis by blast
qed

section \<open>Interfaces of stateful components\<close>

text \<open>
  Two contracts the components share. A \<open>step_system\<close> is a step relation with an invariant
  that holds at the start and that every step keeps; an \<open>op_system\<close> is a component with
  operations that replace its state (each runs under the component's mutex, so a concurrent
  history is a sequence of operations). The invariant then holds in every reachable state
  and after every sequence of operations.
\<close>

locale step_system =
  fixes start :: "'s \<Rightarrow> bool"
    and step :: "'s \<Rightarrow> 's \<Rightarrow> bool"
    and inv :: "'s \<Rightarrow> bool"
  assumes inv_start: "start s \<Longrightarrow> inv s"
    and inv_step: "inv s \<Longrightarrow> step s t \<Longrightarrow> inv t"
begin

lemma inv_steps: "step\<^sup>*\<^sup>* s t \<Longrightarrow> inv s \<Longrightarrow> inv t"
  by (induction rule: rtranclp_induct) (auto intro: inv_step)

lemma inv_reachable: "start s \<Longrightarrow> step\<^sup>*\<^sup>* s t \<Longrightarrow> inv t"
  by (blast intro: inv_steps inv_start)

end

locale op_system =
  fixes start :: "'s \<Rightarrow> bool"
    and exec :: "'o \<Rightarrow> 's \<Rightarrow> 's"
    and inv :: "'s \<Rightarrow> bool"
  assumes op_start: "start s \<Longrightarrow> inv s"
    and op_exec: "inv s \<Longrightarrow> inv (exec p s)"
begin

lemma op_fold: "inv s \<Longrightarrow> inv (fold exec ops s)"
  by (induction ops arbitrary: s) (auto intro: op_exec)

lemma op_run: "start s \<Longrightarrow> inv (fold exec ops s)"
  by (blast intro: op_fold op_start)

end

sublocale op_system \<subseteq> rel: step_system start "\<lambda>s t. \<exists>p. t = exec p s" inv
  by unfold_locales (auto intro: op_start op_exec)

text \<open>
  A \<open>simulation\<close> of a concrete component by an abstract one: related states answer every event of
  an admissible history alike and stay related; the index of the relation (a time, say) may
  advance. Then the answers to the whole history are the same.
\<close>

fun answers :: "('e \<Rightarrow> 's \<Rightarrow> 'a option \<times> 's) \<Rightarrow> 'e list \<Rightarrow> 's \<Rightarrow> 'a option list" where
  "answers step [] s = []"
| "answers step (e # es) s = fst (step e s) # answers step es (snd (step e s))"

locale simulation =
  fixes cstep :: "'e \<Rightarrow> 's \<Rightarrow> 'a option \<times> 's"
    and astep :: "'e \<Rightarrow> 'm \<Rightarrow> 'a option \<times> 'm"
    and rel :: "'t \<Rightarrow> 's \<Rightarrow> 'm \<Rightarrow> bool"
    and admissible :: "'t \<Rightarrow> 'e list \<Rightarrow> bool"
  assumes same_answer: "rel t s m \<Longrightarrow> admissible t (e # es) \<Longrightarrow> fst (cstep e s) = fst (astep e m)"
    and stay_related: "rel t s m \<Longrightarrow> admissible t (e # es) \<Longrightarrow>
      \<exists>u. rel u (snd (cstep e s)) (snd (astep e m)) \<and> admissible u es"
begin

lemma same_answers: "rel t s m \<Longrightarrow> admissible t es \<Longrightarrow> answers cstep es s = answers astep es m"
proof (induction es arbitrary: t s m)
  case (Cons e es)
  obtain u where "rel u (snd (cstep e s)) (snd (astep e m))" and "admissible u es"
    using stay_related [OF Cons.prems] by blast
  then show ?case using same_answer [OF Cons.prems] Cons.IH by simp
qed simp

end

end
