(* ===== verification/Errs_Model.thy ===== *)
theory Errs_Model
  imports Go_Base
begin

text \<open>
  Package \<^verbatim>\<open>errs\<close> (\<^verbatim>\<open>src/errs/errors.go\<close>): the canonical error model. \<open>*errs.Error\<close> values
  are pointers, \<open>WithDetail\<close> and \<open>WithDetails\<close> update the object they point to, and \<open>Wrap\<close>
  may return a pointer that already exists, so the objects live in a heap (a list, an
  address is an index) that the operations thread. The second part has the heap invariant
  that makes \<open>Error()\<close> return, and what classification, wrapping and detail merging do.
\<close>

section \<open>Classes and codes\<close>

definition ClassValidation :: string where "ClassValidation = ''validation''"
definition ClassUnauthorized :: string where "ClassUnauthorized = ''unauthorized''"
definition ClassForbidden :: string where "ClassForbidden = ''forbidden''"
definition ClassNotFound :: string where "ClassNotFound = ''not_found''"
definition ClassConflict :: string where "ClassConflict = ''conflict''"
definition ClassRateLimit :: string where "ClassRateLimit = ''rate_limit''"
definition ClassUpstream :: string where "ClassUpstream = ''upstream''"
definition ClassTimeout :: string where "ClassTimeout = ''timeout''"
definition ClassInternal :: string where "ClassInternal = ''internal''"

lemmas class_defs =
  ClassValidation_def ClassUnauthorized_def ClassForbidden_def ClassNotFound_def
  ClassConflict_def ClassRateLimit_def ClassUpstream_def ClassTimeout_def ClassInternal_def

definition classes :: "string list" where
  "classes = [ClassValidation, ClassUnauthorized, ClassForbidden, ClassNotFound,
     ClassConflict, ClassRateLimit, ClassUpstream, ClassTimeout, ClassInternal]"

definition Class_HTTPStatus :: "string \<Rightarrow> int" where
  "Class_HTTPStatus c =
     (if c = ClassValidation then 400
      else if c = ClassUnauthorized then 401
      else if c = ClassForbidden then 403
      else if c = ClassNotFound then 404
      else if c = ClassConflict then 409
      else if c = ClassRateLimit then 429
      else if c = ClassUpstream then 502
      else if c = ClassTimeout then 504
      else 500)"

text \<open>The sentinel codes, in the order of the source.\<close>

definition CodeValidationFieldRequired :: string where "CodeValidationFieldRequired = ''validation.field_required''"
definition CodeValidationFieldFormat :: string where "CodeValidationFieldFormat = ''validation.field_format''"
definition CodeValidationSchema :: string where "CodeValidationSchema = ''validation.schema''"
definition CodeAuthTokenMissing :: string where "CodeAuthTokenMissing = ''auth.token_missing''"
definition CodeAuthTokenInvalid :: string where "CodeAuthTokenInvalid = ''auth.token_invalid''"
definition CodeAuthTokenExpired :: string where "CodeAuthTokenExpired = ''auth.token_expired''"
definition CodeAuthScopeRequired :: string where "CodeAuthScopeRequired = ''auth.scope_required''"
definition CodeForbiddenScope :: string where "CodeForbiddenScope = ''forbidden.scope''"
definition CodeForbiddenTenant :: string where "CodeForbiddenTenant = ''forbidden.tenant''"
definition CodeForbiddenPolicy :: string where "CodeForbiddenPolicy = ''forbidden.policy''"
definition CodeNotFoundEntity :: string where "CodeNotFoundEntity = ''not_found.entity''"
definition CodeConflictDuplicate :: string where "CodeConflictDuplicate = ''conflict.duplicate''"
definition CodeConflictVersion :: string where "CodeConflictVersion = ''conflict.version_mismatch''"
definition CodeConflictIdempotency :: string where "CodeConflictIdempotency = ''conflict.idempotency_mismatch''"
definition CodeRateLimitExceeded :: string where "CodeRateLimitExceeded = ''rate_limit.exceeded''"
definition CodeUpstreamUnavailable :: string where "CodeUpstreamUnavailable = ''upstream.unavailable''"
definition CodeUpstreamProtocol :: string where "CodeUpstreamProtocol = ''upstream.protocol_error''"
definition CodeUpstreamAuth :: string where "CodeUpstreamAuth = ''upstream.auth_failed''"
definition CodeTimeoutDeadline :: string where "CodeTimeoutDeadline = ''timeout.deadline_exceeded''"
definition CodeTimeoutGuard :: string where "CodeTimeoutGuard = ''timeout.guard''"
definition CodeInternalUnexpected :: string where "CodeInternalUnexpected = ''internal.unexpected''"
definition CodeInternalNotImpl :: string where "CodeInternalNotImpl = ''internal.not_implemented''"

lemmas code_defs =
  CodeValidationFieldRequired_def CodeValidationFieldFormat_def CodeValidationSchema_def
  CodeAuthTokenMissing_def CodeAuthTokenInvalid_def CodeAuthTokenExpired_def
  CodeAuthScopeRequired_def CodeForbiddenScope_def CodeForbiddenTenant_def
  CodeForbiddenPolicy_def CodeNotFoundEntity_def CodeConflictDuplicate_def
  CodeConflictVersion_def CodeConflictIdempotency_def CodeRateLimitExceeded_def
  CodeUpstreamUnavailable_def CodeUpstreamProtocol_def CodeUpstreamAuth_def
  CodeTimeoutDeadline_def CodeTimeoutGuard_def CodeInternalUnexpected_def
  CodeInternalNotImpl_def

definition sentinel_codes :: "string list" where
  "sentinel_codes =
    [CodeValidationFieldRequired, CodeValidationFieldFormat, CodeValidationSchema,
     CodeAuthTokenMissing, CodeAuthTokenInvalid, CodeAuthTokenExpired,
     CodeAuthScopeRequired, CodeForbiddenScope, CodeForbiddenTenant,
     CodeForbiddenPolicy, CodeNotFoundEntity, CodeConflictDuplicate,
     CodeConflictVersion, CodeConflictIdempotency, CodeRateLimitExceeded,
     CodeUpstreamUnavailable, CodeUpstreamProtocol, CodeUpstreamAuth,
     CodeTimeoutDeadline, CodeTimeoutGuard, CodeInternalUnexpected,
     CodeInternalNotImpl]"

section \<open>Errors, their heap and their operations\<close>

record 'v Error =
  eClass :: string
  eCode :: string
  eMessage :: string
  eDetails :: "(string \<rightharpoonup> 'v) option"
  wrapped :: "goerror option"

type_synonym 'v heap = "'v Error list"

text \<open>
  \<open>errors.As(err, &e)\<close> for \<open>e\<close> of type \<open>*Error\<close>: the error tree is searched depth first;
  \<open>None\<close> is false, \<open>Some p\<close> is true with the pointer \<open>p\<close> (possibly nil) stored in \<open>e\<close>.
\<close>

fun errors_As :: "goerror \<Rightarrow> addr option option"
  and errors_As_list :: "goerror list \<Rightarrow> addr option option" where
  "errors_As (ErrsPtr p) = Some p"
| "errors_As (UnitErr u) = (case UnitError_Unwrap u of None \<Rightarrow> None | Some e \<Rightarrow> errors_As e)"
| "errors_As (Foreign i t (Some p) us) = Some p"
| "errors_As (Foreign i t None us) = errors_As_list us"
| "errors_As_list [] = None"
| "errors_As_list (e # es) =
     (case errors_As e of Some p \<Rightarrow> Some p | None \<Rightarrow> errors_As_list es)"

text \<open>
  \<open>Error()\<close> of any error value: for an \<open>*errs.Error\<close> the method of the package, which
  formats the cause with \<open>%v\<close> and so calls the cause's own \<open>Error()\<close>. The recursion runs
  through the heap, so not returning is a value of the model.
\<close>

partial_function (option) error_string :: "'v heap \<Rightarrow> goerror \<Rightarrow> string option" where
  "error_string h e =
     (case e of
        ErrsPtr None \<Rightarrow> Some ''<nil errs.Error>''
      | ErrsPtr (Some a) \<Rightarrow>
          (case wrapped (h ! a) of
             None \<Rightarrow>
               (if eCode (h ! a) \<noteq> []
                then Some (eClass (h ! a) @ '' ['' @ eCode (h ! a) @ '']: '' @ eMessage (h ! a))
                else Some (eClass (h ! a) @ '': '' @ eMessage (h ! a)))
           | Some w \<Rightarrow>
               Option.bind (error_string h w) (\<lambda>s.
                 if eCode (h ! a) \<noteq> []
                 then Some (eClass (h ! a) @ '' ['' @ eCode (h ! a) @ '']: '' @ eMessage (h ! a)
                            @ '': '' @ s)
                 else Some (eClass (h ! a) @ '': '' @ eMessage (h ! a) @ '': '' @ s)))
      | UnitErr u \<Rightarrow> Some (UnitError_Error u)
      | Foreign i t q us \<Rightarrow> Some t)"

definition Error_Error :: "'v heap \<Rightarrow> addr option \<Rightarrow> string option" where
  "Error_Error h e = error_string h (ErrsPtr e)"

definition Error_Unwrap :: "'v heap \<Rightarrow> addr option \<Rightarrow> goerror option" where
  "Error_Unwrap h e = (case e of None \<Rightarrow> None | Some a \<Rightarrow> wrapped (h ! a))"

definition Error_HTTPStatus :: "'v heap \<Rightarrow> addr option \<Rightarrow> int" where
  "Error_HTTPStatus h e = (case e of None \<Rightarrow> 500 | Some a \<Rightarrow> Class_HTTPStatus (eClass (h ! a)))"

definition put_detail :: "'v Error \<Rightarrow> string \<Rightarrow> 'v \<Rightarrow> 'v Error" where
  "put_detail x k v =
     x\<lparr>eDetails := Some ((case eDetails x of None \<Rightarrow> Map.empty | Some m \<Rightarrow> m)(k \<mapsto> v))\<rparr>"

definition Error_WithDetail ::
  "'v heap \<Rightarrow> addr option \<Rightarrow> string \<Rightarrow> 'v \<Rightarrow> addr option \<times> 'v heap" where
  "Error_WithDetail h e k v =
     (case e of
        None \<Rightarrow> (None, h)
      | Some a \<Rightarrow> (Some a, h[a := put_detail (h ! a) k v]))"

text \<open>
  \<open>WithDetails\<close> takes the map as the sequence of bindings its \<open>range\<close> loop visits.
\<close>

definition Error_WithDetails ::
  "'v heap \<Rightarrow> addr option \<Rightarrow> (string \<times> 'v) list \<Rightarrow> addr option \<times> 'v heap" where
  "Error_WithDetails h e kvs =
     (case e of
        None \<Rightarrow> (None, h)
      | Some a \<Rightarrow>
          if kvs = [] then (Some a, h)
          else (Some a, h[a := fold (\<lambda>(k, v) x. put_detail x k v) kvs (h ! a)]))"

definition errs_New :: "'v heap \<Rightarrow> string \<Rightarrow> string \<Rightarrow> string \<Rightarrow> addr option \<times> 'v heap" where
  "errs_New h class code message =
     (Some (length h),
      h @ [\<lparr>eClass = class, eCode = code, eMessage = message, eDetails = None, wrapped = None\<rparr>])"

definition errs_Wrap ::
  "'v heap \<Rightarrow> goerror option \<Rightarrow> string \<Rightarrow> string \<Rightarrow> string \<Rightarrow> addr option \<times> 'v heap" where
  "errs_Wrap h err class code message =
     (case err of
        None \<Rightarrow> (None, h)
      | Some e \<Rightarrow>
          (case errors_As e of
             Some existing \<Rightarrow> (existing, h)
           | None \<Rightarrow>
               (Some (length h),
                h @ [\<lparr>eClass = class, eCode = code, eMessage = message, eDetails = None,
                      wrapped = Some e\<rparr>])))"

definition Classify :: "'v heap \<Rightarrow> goerror option \<Rightarrow> string" where
  "Classify h err =
     (case err of
        None \<Rightarrow> ClassInternal
      | Some e \<Rightarrow>
          (case errors_As e of
             Some (Some a) \<Rightarrow> eClass (h ! a)
           | _ \<Rightarrow> ClassInternal))"

definition IsClass :: "'v heap \<Rightarrow> goerror option \<Rightarrow> string \<Rightarrow> bool" where
  "IsClass h err c \<longleftrightarrow> Classify h err = c"

text \<open>
  The implicit conversion of a \<open>*Error\<close> to the interface \<open>error\<close>: the interface holds the
  type and the pointer, so it is never nil, even when the pointer is.
\<close>

definition as_error :: "addr option \<Rightarrow> goerror option" where
  "as_error p = Some (ErrsPtr p)"

text \<open>\<open>fmt.Errorf("...: %w", err)\<close>: a foreign error that unwraps to its argument.\<close>

definition Errorf_w :: "addr \<Rightarrow> string \<Rightarrow> goerror \<Rightarrow> goerror" where
  "Errorf_w i t e = Foreign i t None [e]"

section \<open>Histories of the package's operations\<close>

datatype 'v errs_op =
    OpNew string string string
  | OpWrap "goerror option" string string string
  | OpWithDetail "addr option" string 'v
  | OpWithDetails "addr option" "(string \<times> 'v) list"

fun errs_exec :: "'v errs_op \<Rightarrow> 'v heap \<Rightarrow> 'v heap" where
  "errs_exec (OpNew c k m) h = snd (errs_New h c k m)"
| "errs_exec (OpWrap e c k m) h = snd (errs_Wrap h e c k m)"
| "errs_exec (OpWithDetail p k v) h = snd (Error_WithDetail h p k v)"
| "errs_exec (OpWithDetails p kvs) h = snd (Error_WithDetails h p kvs)"

text \<open>
  The invariant: a cause stored by the package has no \<open>*Error\<close> in its own tree (otherwise
  \<open>Wrap\<close> would have returned that one).
\<close>

definition heap_ok :: "'v heap \<Rightarrow> bool" where
  "heap_ok h \<longleftrightarrow> (\<forall>x \<in> set h. \<forall>w. wrapped x = Some w \<longrightarrow> errors_As w = None)"

text \<open>
  The reference for the text of a cause: an error that is no \<open>*Error\<close> prints its own text, a
  unit error its message.
\<close>

definition cause_text :: "goerror \<Rightarrow> string" where
  "cause_text e = (case e of ErrsPtr p \<Rightarrow> [] | UnitErr u \<Rightarrow> ueMessage u | Foreign i t q us \<Rightarrow> t)"

section \<open>Lemmas\<close>

lemma class_distinct: "distinct classes"
  by (simp add: classes_def class_defs)

lemma wrapped_put_detail [simp]: "wrapped (put_detail x k v) = wrapped x"
  and eClass_put_detail [simp]: "eClass (put_detail x k v) = eClass x"
  and eCode_put_detail [simp]: "eCode (put_detail x k v) = eCode x"
  and eMessage_put_detail [simp]: "eMessage (put_detail x k v) = eMessage x"
  and put_detail_overwrite [simp]: "(put_detail x k v)\<lparr>eDetails := d\<rparr> = x\<lparr>eDetails := d\<rparr>"
  by (simp_all add: put_detail_def)

lemma fold_put_detail_frame [simp]:
  "wrapped (fold (\<lambda>(k, v) x. put_detail x k v) kvs x) = wrapped x"
  "eClass (fold (\<lambda>(k, v) x. put_detail x k v) kvs x) = eClass x"
  "eCode (fold (\<lambda>(k, v) x. put_detail x k v) kvs x) = eCode x"
  "eMessage (fold (\<lambda>(k, v) x. put_detail x k v) kvs x) = eMessage x"
  by (induction kvs arbitrary: x) auto

lemma fold_put_detail_Some:
  assumes "eDetails x = Some m"
  shows "fold (\<lambda>(k, v) x. put_detail x k v) kvs x = x\<lparr>eDetails := Some (m ++ map_of (rev kvs))\<rparr>"
  using assms
proof (induction kvs arbitrary: x m)
  case Nil
  then show ?case by simp
next
  case (Cons kv kvs)
  obtain k v where kv: "kv = (k, v)" by fastforce
  have "eDetails (put_detail x k v) = Some (m(k \<mapsto> v))"
    using Cons.prems by (simp add: put_detail_def)
  from Cons.IH [OF this] show ?case
    by (simp add: kv del: fun_upd_apply)
qed

lemma fold_put_detail:
  assumes "kvs \<noteq> []"
  shows "fold (\<lambda>(k, v) x. put_detail x k v) kvs x =
     x\<lparr>eDetails := Some ((case eDetails x of None \<Rightarrow> Map.empty | Some m \<Rightarrow> m) ++ map_of (rev kvs))\<rparr>"
proof -
  obtain k v rest where kvs: "kvs = (k, v) # rest"
    using assms by (cases kvs) auto
  have "eDetails (put_detail x k v) =
      Some ((case eDetails x of None \<Rightarrow> Map.empty | Some m \<Rightarrow> m)(k \<mapsto> v))"
    by (simp add: put_detail_def)
  from fold_put_detail_Some [OF this, of rest] show ?thesis
    by (simp add: kvs put_detail_def)
qed

lemma heap_ok_nth: "heap_ok h \<Longrightarrow> a < length h \<Longrightarrow> wrapped (h ! a) = Some w \<Longrightarrow> errors_As w = None"
  by (auto simp: heap_ok_def)

lemma heap_ok_update:
  assumes "heap_ok h" and "wrapped y = wrapped (h ! a)"
  shows "heap_ok (h[a := y])"
proof (cases "a < length h")
  case True
  have "set (h[a := y]) \<subseteq> insert y (set h)" by (rule set_update_subset_insert)
  moreover have "wrapped y = Some w \<Longrightarrow> errors_As w = None" for w
    using assms True by (auto dest: heap_ok_nth)
  ultimately show ?thesis using assms(1) by (auto simp: heap_ok_def)
next
  case False
  with assms show ?thesis by (simp add: list_update_beyond)
qed

lemma heap_ok_exec: "heap_ok h \<Longrightarrow> heap_ok (errs_exec p h)"
proof (induction p h rule: errs_exec.induct)
  case (1 c k m h)
  then show ?case by (auto simp: errs_New_def heap_ok_def)
next
  case (2 e c k m h)
  then show ?case by (auto simp: errs_Wrap_def heap_ok_def split: option.splits)
next
  case (3 p k v h)
  then show ?case by (auto simp: Error_WithDetail_def heap_ok_update split: option.splits)
next
  case (4 p kvs h)
  then show ?case by (auto simp: Error_WithDetails_def heap_ok_update split: option.splits)
qed

interpretation errs_heap: op_system "\<lambda>h. h = []" errs_exec heap_ok
  by unfold_locales (simp add: heap_ok_def, rule heap_ok_exec)

text \<open>Rendering an error other than an \<open>*Error\<close> does not look at the heap.\<close>

lemma error_string_foreign: "errors_As w = None \<Longrightarrow> error_string h w = Some (cause_text w)"
  by (cases w) (auto simp: error_string.simps cause_text_def UnitError_Error_def)

lemma Classify_Errorf: "Classify h (Some (Errorf_w i t e)) = Classify h (Some e)"
  by (auto simp: Classify_def Errorf_w_def split: option.splits)

lemma nth_append_old [simp]: "a < length h \<Longrightarrow> (h @ [x]) ! a = h ! a"
  by (simp add: nth_append)

lemma sentinel_codes_distinct: "distinct sentinel_codes"
  by (simp add: sentinel_codes_def code_defs)

section \<open>Properties\<close>

text \<open>\<open>Class.HTTPStatus\<close> gives the nine classes nine different statuses, each at least 400
  and below 600, and every other string the status of \<open>ClassInternal\<close>.\<close>

lemma HTTPStatus_classes:
  "distinct (map Class_HTTPStatus classes)
   \<and> (\<forall>c. 400 \<le> Class_HTTPStatus c \<and> Class_HTTPStatus c < 600)
   \<and> {c. Class_HTTPStatus c \<noteq> Class_HTTPStatus ClassInternal} = set classes - {ClassInternal}"
proof (intro conjI)
  show "distinct (map Class_HTTPStatus classes)"
    by (simp add: classes_def Class_HTTPStatus_def class_defs)
  show "\<forall>c. 400 \<le> Class_HTTPStatus c \<and> Class_HTTPStatus c < 600"
    by (simp add: Class_HTTPStatus_def)
  have internal: "Class_HTTPStatus ClassInternal = 500"
    by (simp add: Class_HTTPStatus_def class_defs)
  have "Class_HTTPStatus c \<noteq> 500 \<longleftrightarrow> c \<in> set classes - {ClassInternal}" for c
    by (simp add: Class_HTTPStatus_def classes_def class_defs)
  then show "{c. Class_HTTPStatus c \<noteq> Class_HTTPStatus ClassInternal} = set classes - {ClassInternal}"
    unfolding internal by blast
qed

text \<open>C15: \<open>Error()\<close> returns for every \<open>*Error\<close> of a heap that the package's operations
  built: after any history of \<open>New\<close>, \<open>Wrap\<close>, \<open>WithDetail\<close> and \<open>WithDetails\<close>, rendering never
  runs into a cyclic chain of causes, and the text is exactly the class, the code in brackets
  when there is one, the message, and, when there is a cause, a colon and the text of the cause
  (the message of a unit error, the own text of any other error).\<close>

theorem Error_returns:
  assumes "a < length (fold errs_exec ops [])"
  defines "h \<equiv> fold errs_exec ops []"
  shows "Error_Error h (Some a) =
     Some (eClass (h ! a) @ (if eCode (h ! a) \<noteq> [] then '' ['' @ eCode (h ! a) @ '']'' else [])
           @ '': '' @ eMessage (h ! a)
           @ (case wrapped (h ! a) of None \<Rightarrow> [] | Some w \<Rightarrow> '': '' @ cause_text w))"
proof (cases "wrapped (h ! a)")
  case None
  then show ?thesis by (auto simp: Error_Error_def error_string.simps [of h "ErrsPtr (Some a)"])
next
  case (Some w)
  have "heap_ok h" unfolding h_def by (rule errs_heap.op_run) simp
  then have "errors_As w = None"
    using assms(1) Some heap_ok_nth unfolding h_def by blast
  then have "error_string h w = Some (cause_text w)" by (rule error_string_foreign)
  with Some show ?thesis
    by (auto simp: Error_Error_def error_string.simps [of h "ErrsPtr (Some a)"])
qed

theorem Error_returns_witness:
  "Error_Error (fold errs_exec
       [OpNew ClassValidation CodeValidationFieldRequired ''email is required'',
        OpWrap (Some (Foreign 7 ''dial tcp: connection refused'' None [])) ClassUpstream CodeUpstreamUnavailable
          ''openai unreachable'' :: nat errs_op] []) (Some 1) =
     Some ''upstream [upstream.unavailable]: openai unreachable: dial tcp: connection refused''"
  using Error_returns [of 1 "[OpNew ClassValidation CodeValidationFieldRequired ''email is required'',
        OpWrap (Some (Foreign 7 ''dial tcp: connection refused'' None [])) ClassUpstream CodeUpstreamUnavailable
          ''openai unreachable'' :: nat errs_op]"]
  by (simp add: errs_New_def errs_Wrap_def cause_text_def class_defs code_defs)

text \<open>\<open>Wrap\<close> of an error that carries no \<open>*Error\<close> allocates a fresh object whose class,
  code and cause are the arguments and that classifies as the given class; every object that
  existed keeps its contents.\<close>

lemma Wrap_fresh:
  assumes "errors_As e = None"
  shows "\<exists>h'. errs_Wrap h (Some e) c k m = (Some (length h), h')
     \<and> take (length h) h' = h
     \<and> Classify h' (as_error (Some (length h))) = c
     \<and> Error_Unwrap h' (Some (length h)) = Some e
     \<and> Error_HTTPStatus h' (Some (length h)) = Class_HTTPStatus c"
  using assms
  by (simp add: errs_Wrap_def Classify_def as_error_def Error_Unwrap_def Error_HTTPStatus_def)

text \<open>\<open>Wrap\<close> never classifies twice: wrapping an error that carries an \<open>*Error\<close> at any
  depth returns that very pointer and changes nothing, and so does wrapping any wrapping of
  the result.\<close>

lemma Wrap_idempotent:
  "errs_Wrap h (Some e) c k m = (p, h') \<Longrightarrow>
     errs_Wrap h' (as_error p) c' k' m' = (p, h')
     \<and> errs_Wrap h' (Some (Errorf_w i t (ErrsPtr p))) c' k' m' = (p, h')"
  by (auto simp: errs_Wrap_def as_error_def Errorf_w_def split: option.splits)

text \<open>C37: an error is classified once. \<open>Wrap\<close> leaves every existing object as it was; its result has
  the given class, and the error as its cause, when the error carries no \<open>*Error\<close>, else the
  class the error has already; and wrapping the result again, plain or in a further \<open>%w\<close>
  layer, with whatever class, code and message, gives the same pointer and changes nothing.\<close>

theorem Wrap_classifies_once:
  assumes "errs_Wrap h (Some e) c k m = (p, h')"
  shows "take (length h) h' = h
    \<and> Classify h' (as_error p) = (if errors_As e = None then c else Classify h (Some e))
    \<and> (errors_As e = None \<longrightarrow> p = Some (length h) \<and> Error_Unwrap h' p = Some e)
    \<and> errs_Wrap h' (as_error p) c' k' m' = (p, h')
    \<and> errs_Wrap h' (Some (Errorf_w i t (ErrsPtr p))) c' k' m' = (p, h')"
proof (cases "errors_As e")
  case None
  with assms Wrap_fresh [OF None, of h c k m] Wrap_idempotent [OF assms] show ?thesis by auto
next
  case (Some q)
  then have "p = q" and "h' = h" using assms by (auto simp: errs_Wrap_def)
  with Some Wrap_idempotent [OF assms] show ?thesis by (simp add: Classify_def as_error_def)
qed

theorem Wrap_classifies_once_witness:
  "Classify (snd (errs_Wrap ([] :: nat heap) (Some (Foreign 7 ''x'' None [])) ''a'' ''b'' ''c'')) (as_error (Some 0)) = ''a''
   \<and> errs_Wrap (snd (errs_Wrap ([] :: nat heap) (Some (Foreign 7 ''x'' None [])) ''a'' ''b'' ''c'')) (as_error (Some 0)) ''d'' ''e'' ''f''
     = (Some 0, snd (errs_Wrap [] (Some (Foreign 7 ''x'' None [])) ''a'' ''b'' ''c''))"
proof -
  let ?h = "snd (errs_Wrap ([] :: nat heap) (Some (Foreign 7 ''x'' None [])) ''a'' ''b'' ''c'')"
  have "errs_Wrap ([] :: nat heap) (Some (Foreign 7 ''x'' None [])) ''a'' ''b'' ''c'' = (Some 0, ?h)"
    by (simp add: errs_Wrap_def)
  from Wrap_classifies_once [OF this, of "''d''" "''e''" "''f''"] show ?thesis by auto
qed

text \<open>The nil result of \<open>Wrap(nil, ...)\<close> is a nil pointer, not a nil \<open>error\<close>: a function
  with result type \<open>error\<close> that ends in \<open>return errs.Wrap(err, ...)\<close> returns a non-nil error
  for a nil \<open>err\<close>, and that error classifies as internal.\<close>

lemma Wrap_nil_is_not_nil_error:
  "fst (errs_Wrap h None c k m) = None
   \<and> as_error (fst (errs_Wrap h None c k m)) \<noteq> None
   \<and> Classify h (as_error (fst (errs_Wrap h None c k m))) = ClassInternal
   \<and> Error_Error h (fst (errs_Wrap h None c k m)) = Some ''<nil errs.Error>''"
  by (simp add: errs_Wrap_def as_error_def Classify_def Error_Error_def error_string.simps)

text \<open>C36: classification sees through any number of \<open>%w\<close> layers: an \<open>*Error\<close> under any layers
  of \<open>fmt.Errorf\<close> classifies as its own class, and \<open>IsClass\<close> holds of it for that class and no
  other; adding layers to any error changes neither; and an error without an \<open>*Error\<close> in its
  tree, a nil \<open>*Error\<close> in layers, and nil are internal.\<close>

theorem Classify_through_layers:
  fixes layers :: "(addr \<times> string) list" and e :: goerror
  defines "layered \<equiv> fold (\<lambda>(i, t). Errorf_w i t) layers"
  shows "Classify h (Some (layered (ErrsPtr (Some a)))) = eClass (h ! a)
   \<and> (IsClass h (Some (layered (ErrsPtr (Some a)))) c \<longleftrightarrow> c = eClass (h ! a))
   \<and> Classify h (Some (layered e)) = Classify h (Some e)
   \<and> IsClass h (Some (layered e)) c = IsClass h (Some e) c
   \<and> (errors_As e = None \<longrightarrow> Classify h (Some (layered e)) = ClassInternal)
   \<and> Classify h (Some (layered (ErrsPtr None))) = ClassInternal
   \<and> Classify h None = ClassInternal"
proof -
  have "Classify h (Some (layered x)) = Classify h (Some x)" for x
    unfolding layered_def by (induction layers arbitrary: x) (auto simp: Classify_Errorf)
  then show ?thesis by (auto simp: IsClass_def) (simp_all add: Classify_def)
qed

theorem Classify_through_layers_witness:
  "Classify [\<lparr>eClass = ClassTimeout, eCode = [], eMessage = [], eDetails = None :: (string \<rightharpoonup> nat) option, wrapped = None\<rparr>]
     (Some (fold (\<lambda>(i, t). Errorf_w i t) [(1, ''x''), (2, ''y'')] (ErrsPtr (Some 0)))) = ClassTimeout
   \<and> Classify ([] :: nat heap)
     (Some (fold (\<lambda>(i, t). Errorf_w i t) [(1, ''x''), (2, ''y'')] (Foreign 7 ''z'' None []))) = ClassInternal"
  using Classify_through_layers [of "[\<lparr>eClass = ClassTimeout, eCode = [], eMessage = [], eDetails = None :: (string \<rightharpoonup> nat) option, wrapped = None\<rparr>]"
      "[(1, ''x''), (2, ''y'')]" 0 ClassTimeout "ErrsPtr None"]
    Classify_through_layers [of "[] :: nat heap" "[(1, ''x''), (2, ''y'')]" 0 "[]" "Foreign 7 ''z'' None []"]
  by auto

text \<open>C35: \<open>WithDetails\<close> merges a map in whatever order its range loop visits it: the result is
  the old details overridden by the given ones, the pointer is returned for chaining, and no
  other object and no other field of the object changes. On a nil pointer it does nothing.\<close>

theorem WithDetails_merges:
  assumes "enumerates kvs d" and "a < length h"
  shows "\<exists>h'. Error_WithDetails h (Some a) kvs = (Some a, h')
     \<and> length h' = length h
     \<and> (\<forall>b < length h. b \<noteq> a \<longrightarrow> h' ! b = h ! b)
     \<and> h' ! a = (if d = Map.empty then h ! a
          else (h ! a)\<lparr>eDetails :=
                 Some ((case eDetails (h ! a) of None \<Rightarrow> Map.empty | Some m \<Rightarrow> m) ++ d)\<rparr>)
     \<and> Error_WithDetails h None kvs = (None, h)"
proof (cases "kvs = []")
  case True
  then show ?thesis using assms by (simp add: Error_WithDetails_def)
next
  case False
  have "d \<noteq> Map.empty" using assms(1) False by (cases kvs) (auto simp: enumerates_def)
  with False show ?thesis
    using assms by (simp add: Error_WithDetails_def fold_put_detail enumerates_rev)
qed

theorem WithDetails_merges_witness:
  "\<exists>h'. Error_WithDetails (snd (errs_New [] ''a'' ''b'' ''c'')) (Some 0) [(''k'', 1::nat)] = (Some 0, h')
     \<and> eDetails (h' ! 0) = Some [''k'' \<mapsto> 1]"
  using WithDetails_merges [of "[(''k'', 1::nat)]" "[''k'' \<mapsto> 1]" 0 "snd (errs_New [] ''a'' ''b'' ''c'')"]
  by (auto simp: errs_New_def enumerates_def map_upd_nonempty)

end
