(* ===== verification/Ids_Ulid.thy ===== *)
theory Ids_Ulid
  imports Go_Base "HOL-Library.List_Lexorder" "HOL-Library.Char_ord"
begin

text \<open>
  Package \<^verbatim>\<open>ids\<close> (\<^verbatim>\<open>src/ids/ulid.go\<close>): ULIDs. Bytes are \<open>8 word\<close>s, the 16-byte array is a
  list, and \<open>encode\<close> is the source's table of 26 bit expressions. The lemmas read those
  expressions as the base-32 digits of the 128-bit number, from which the format, the
  injectivity, the order and the time stamp of an identifier follow. Strings are compared
  bytewise, as Go does: the lexicographic order of lists over the order of characters.
\<close>

unbundle bit_operations_syntax

section \<open>The code\<close>

definition crockford :: string where
  "crockford = ''0123456789ABCDEFGHJKMNPQRSTVWXYZ''"

definition encode_indices :: "8 word list \<Rightarrow> 8 word list" where
  "encode_indices b =
    [drop_bit 5 (b ! 0 AND 224),
     b ! 0 AND 31,
     drop_bit 3 (b ! 1 AND 248),
     push_bit 2 (b ! 1 AND 7) OR drop_bit 6 (b ! 2 AND 192),
     drop_bit 1 (b ! 2 AND 62),
     push_bit 4 (b ! 2 AND 1) OR drop_bit 4 (b ! 3 AND 240),
     push_bit 1 (b ! 3 AND 15) OR drop_bit 7 (b ! 4 AND 128),
     drop_bit 2 (b ! 4 AND 124),
     push_bit 3 (b ! 4 AND 3) OR drop_bit 5 (b ! 5 AND 224),
     b ! 5 AND 31,
     drop_bit 3 (b ! 6 AND 248),
     push_bit 2 (b ! 6 AND 7) OR drop_bit 6 (b ! 7 AND 192),
     drop_bit 1 (b ! 7 AND 62),
     push_bit 4 (b ! 7 AND 1) OR drop_bit 4 (b ! 8 AND 240),
     push_bit 1 (b ! 8 AND 15) OR drop_bit 7 (b ! 9 AND 128),
     drop_bit 2 (b ! 9 AND 124),
     push_bit 3 (b ! 9 AND 3) OR drop_bit 5 (b ! 10 AND 224),
     b ! 10 AND 31,
     drop_bit 3 (b ! 11 AND 248),
     push_bit 2 (b ! 11 AND 7) OR drop_bit 6 (b ! 12 AND 192),
     drop_bit 1 (b ! 12 AND 62),
     push_bit 4 (b ! 12 AND 1) OR drop_bit 4 (b ! 13 AND 240),
     push_bit 1 (b ! 13 AND 15) OR drop_bit 7 (b ! 14 AND 128),
     drop_bit 2 (b ! 14 AND 124),
     push_bit 3 (b ! 14 AND 3) OR drop_bit 5 (b ! 15 AND 224),
     b ! 15 AND 31]"

definition encode :: "8 word list \<Rightarrow> string" where
  "encode b = map (\<lambda>i. crockford ! unat i) (encode_indices b)"

definition PutUint64 :: "64 word \<Rightarrow> 8 word list" where
  "PutUint64 v = map (\<lambda>n. ucast (drop_bit n v)) [56, 48, 40, 32, 24, 16, 8, 0]"

text \<open>
  \<open>rand.Read(buf)\<close> with its results ignored: the bytes \<open>r\<close> the source delivered overwrite
  the front of the buffer; after a short read the rest keeps what it held.
\<close>

definition rand_Read :: "8 word list \<Rightarrow> 8 word list \<Rightarrow> 8 word list" where
  "rand_Read r buf = take (length buf) r @ drop (length r) buf"

definition ulid_bytes :: "instant \<Rightarrow> 8 word list \<Rightarrow> 8 word list" where
  "ulid_bytes now r =
     (let ms = (word_of_int (now div 1000000) :: 64 word);
          b = PutUint64 (push_bit 16 ms) @ replicate 8 0
      in take 6 b @ rand_Read r (drop 6 b))"

definition ulid_New :: "instant \<Rightarrow> 8 word list \<Rightarrow> string" where
  "ulid_New now r = encode (ulid_bytes now r)"

definition Prefixed :: "string \<Rightarrow> instant \<Rightarrow> 8 word list \<Rightarrow> string" where
  "Prefixed prefix now r = prefix @ ''_'' @ ulid_New now r"

section \<open>Reference definitions\<close>

text \<open>The number a list of digits denotes, most significant digit first.\<close>

primrec val :: "nat \<Rightarrow> nat list \<Rightarrow> nat" where
  "val B [] = 0"
| "val B (d # ds) = d * B ^ length ds + val B ds"

definition digit_of :: "char \<Rightarrow> nat" where
  "digit_of c = length (takeWhile (\<lambda>x. x \<noteq> c) crockford)"

definition byte_value :: "8 word list \<Rightarrow> nat" where
  "byte_value b = val 256 (map unat b)"

text \<open>The eight digits that five consecutive bytes contribute.\<close>

definition block :: "8 word \<Rightarrow> 8 word \<Rightarrow> 8 word \<Rightarrow> 8 word \<Rightarrow> 8 word \<Rightarrow> nat list" where
  "block a b c d e =
    [unat a div 8, unat a mod 8 * 4 + unat b div 64, unat b div 2 mod 32,
     unat b mod 2 * 16 + unat c div 16, unat c mod 16 * 2 + unat d div 128,
     unat d div 4 mod 32, unat d mod 4 * 8 + unat e div 32, unat e mod 32]"

section \<open>Digits\<close>

lemma val_bound: "\<forall>d \<in> set ds. d < B \<Longrightarrow> val B ds < B ^ length ds"
proof (induction ds)
  case (Cons d ds)
  then have "d < B" and IH: "val B ds < B ^ length ds" by auto
  then have "Suc d * B ^ length ds \<le> B * B ^ length ds" by (intro mult_right_mono) auto
  with IH show ?case by simp
qed simp

lemma val_append: "val B (xs @ ys) = val B xs * B ^ length ys + val B ys"
  by (induction xs) (auto simp: algebra_simps power_add)

lemma val_less_iff:
  assumes "length xs = length ys" and "\<forall>d \<in> set xs. d < B" and "\<forall>d \<in> set ys. d < B"
  shows "xs < ys \<longleftrightarrow> val B xs < val B ys"
  using assms
proof (induction xs ys rule: list_induct2)
  case (Cons x xs y ys)
  have bx: "val B xs < B ^ length xs" and "by": "val B ys < B ^ length ys"
    using Cons.prems by (auto intro: val_bound)
  consider "x < y" | "y < x" | "x = y" by arith
  then show ?case
  proof cases
    case 1
    then have "Suc x * B ^ length xs \<le> y * B ^ length xs" by (intro mult_right_mono) auto
    with 1 bx Cons.hyps show ?thesis by simp
  next
    case 2
    then have "Suc y * B ^ length xs \<le> x * B ^ length xs" by (intro mult_right_mono) auto
    with 2 "by" Cons.hyps show ?thesis by simp
  next
    case 3
    with Cons show ?thesis by simp
  qed
qed simp

lemma val_inject:
  assumes "length xs = length ys" and "\<forall>d \<in> set xs. d < B" and "\<forall>d \<in> set ys. d < B"
    and "val B xs = val B ys"
  shows "xs = ys"
  using val_less_iff [OF assms(1-3)] val_less_iff [OF assms(1)[symmetric] assms(3,2)] assms(4)
  by (simp add: not_less_iff_gr_or_eq [symmetric])

lemma or_add_nat:
  assumes "b < 2 ^ n"
  shows "push_bit n (a::nat) OR b = a * 2 ^ n + b"
proof -
  have "push_bit n a + b = push_bit n a OR b"
  proof (rule disjunctive_add)
    fix k
    have "bit b k \<Longrightarrow> k < n"
      using assms by (metis bit_take_bit_iff take_bit_nat_eq_self)
    then show "\<not> bit (push_bit n a) k \<or> \<not> bit b k"
      by (auto simp: bit_push_bit_iff)
  qed
  then show ?thesis by (simp add: push_bit_eq_mult)
qed

lemma unat_byte [simp]: "unat (x::8 word) < 256"
  using unsigned_less [of x, where 'a = nat] by simp

lemma bit_field:
  assumes "drop_bit k m = mask n"
  shows "unat (drop_bit k ((x::8 word) AND m)) = (unat x div 2 ^ k) mod 2 ^ n"
proof -
  have "drop_bit k (x AND m) = take_bit n (drop_bit k x)"
    using assms by (simp add: take_bit_eq_mask)
  then have "unat (drop_bit k (x AND m)) = take_bit n (drop_bit k (unat x))"
    by (simp only: unsigned_take_bit_eq unat_drop_bit_eq)
  then show ?thesis by (simp only: take_bit_eq_mod drop_bit_eq_div)
qed

lemma bit_join:
  assumes "unat x * 2 ^ k < 256" and "unat y < 2 ^ k"
  shows "unat (push_bit k (x::8 word) OR y) = unat x * 2 ^ k + unat y"
  using assms
  by (simp add: unsigned_or_eq unsigned_push_bit_eq take_bit_nat_eq_self or_add_nat
      push_bit_eq_mult [symmetric])

lemma bit_join_values:
  "unat (x::8 word) = u \<Longrightarrow> unat y = v \<Longrightarrow> u * 2 ^ k < 256 \<Longrightarrow> v < 2 ^ k \<Longrightarrow>
     unat (push_bit k x OR y) = u * 2 ^ k + v"
  using bit_join [of x k y] by simp

lemma bit_field_low: "m = mask n \<Longrightarrow> unat ((x::8 word) AND m) = unat x mod 2 ^ n"
  using bit_field [of 0 m n x] by simp

lemma byte_shifts [simp]:
  fixes x :: "8 word"
  shows "unat x div 16 < 16" and "unat x div 32 < 8" and "unat x div 64 < 4"
    and "unat x div 128 < 2" and "unat x div 8 < 32"
  using unat_byte [of x] by linarith+

lemma bit_field_high:
  assumes "drop_bit k m = mask n" and "unat x div 2 ^ k < 2 ^ n"
  shows "unat (drop_bit k ((x::8 word) AND m)) = unat x div 2 ^ k"
  using bit_field [OF assms(1), of x] assms(2) by (simp only: mod_less)

lemmas masks = mask_eq_exp_minus_1

lemma byte_field_values:
  fixes x :: "8 word"
  shows "unat (x AND 1) = unat x mod 2"
    and "unat (x AND 3) = unat x mod 4"
    and "unat (x AND 7) = unat x mod 8"
    and "unat (x AND 15) = unat x mod 16"
    and "unat (x AND 31) = unat x mod 32"
    and "unat (drop_bit 5 (x AND 224)) = unat x div 32"
    and "unat (drop_bit 3 (x AND 248)) = unat x div 8"
    and "unat (drop_bit 6 (x AND 192)) = unat x div 64"
    and "unat (drop_bit 1 (x AND 62)) = unat x div 2 mod 32"
    and "unat (drop_bit 4 (x AND 240)) = unat x div 16"
    and "unat (drop_bit 7 (x AND 128)) = unat x div 128"
    and "unat (drop_bit 2 (x AND 124)) = unat x div 4 mod 32"
  subgoal using bit_field_low [of 1 1 x] by (simp add: masks)
  subgoal using bit_field_low [of 3 2 x] by (simp add: masks)
  subgoal using bit_field_low [of 7 3 x] by (simp add: masks)
  subgoal using bit_field_low [of 15 4 x] by (simp add: masks)
  subgoal using bit_field_low [of 31 5 x] by (simp add: masks)
  subgoal using bit_field_high [of 5 224 3 x] by (simp add: masks del: drop_bit_and)
  subgoal using bit_field_high [of 3 248 5 x] by (simp add: masks del: drop_bit_and)
  subgoal using bit_field_high [of 6 192 2 x] by (simp add: masks del: drop_bit_and)
  subgoal using bit_field [of 1 62 5 x] by (simp add: masks del: drop_bit_and)
  subgoal using bit_field_high [of 4 240 4 x] by (simp add: masks del: drop_bit_and)
  subgoal using bit_field_high [of 7 128 1 x] by (simp add: masks del: drop_bit_and)
  subgoal using bit_field [of 2 124 5 x] by (simp add: masks del: drop_bit_and)
  done

lemma byte_join_values:
  fixes x y :: "8 word"
  shows "unat (push_bit 2 (x AND 7) OR drop_bit 6 (y AND 192)) = unat x mod 8 * 4 + unat y div 64"
    and "unat (push_bit 4 (x AND 1) OR drop_bit 4 (y AND 240)) = unat x mod 2 * 16 + unat y div 16"
    and "unat (push_bit 1 (x AND 15) OR drop_bit 7 (y AND 128)) = unat x mod 16 * 2 + unat y div 128"
    and "unat (push_bit 3 (x AND 3) OR drop_bit 5 (y AND 224)) = unat x mod 4 * 8 + unat y div 32"
proof -
  have "unat x mod 8 * 4 < 256" and "unat x mod 2 * 16 < 256"
    and "unat x mod 16 * 2 < 256" and "unat x mod 4 * 8 < 256"
    by linarith+
  then have bounds: "unat x mod 8 * 2 ^ 2 < 256" "unat x mod 2 * 2 ^ 4 < 256"
    "unat x mod 16 * 2 ^ 1 < 256" "unat x mod 4 * 2 ^ 3 < 256"
    by simp_all
  show "unat (push_bit 2 (x AND 7) OR drop_bit 6 (y AND 192)) = unat x mod 8 * 4 + unat y div 64"
    using bit_join_values [OF byte_field_values(3) [of x] byte_field_values(8) [of y] bounds(1)] by simp
  show "unat (push_bit 4 (x AND 1) OR drop_bit 4 (y AND 240)) = unat x mod 2 * 16 + unat y div 16"
    using bit_join_values [OF byte_field_values(1) [of x] byte_field_values(10) [of y] bounds(2)] by simp
  show "unat (push_bit 1 (x AND 15) OR drop_bit 7 (y AND 128)) = unat x mod 16 * 2 + unat y div 128"
    using bit_join_values [OF byte_field_values(4) [of x] byte_field_values(11) [of y] bounds(3)] by simp
  show "unat (push_bit 3 (x AND 3) OR drop_bit 5 (y AND 224)) = unat x mod 4 * 8 + unat y div 32"
    using bit_join_values [OF byte_field_values(2) [of x] byte_field_values(6) [of y] bounds(4)] by simp
qed

lemma split_byte:
  fixes n :: nat
  shows "n div 8 * 8 + n mod 8 = n"
    and "n div 64 * 64 + n div 2 mod 32 * 2 + n mod 2 = n"
    and "n div 16 * 16 + n mod 16 = n"
    and "n div 128 * 128 + n div 4 mod 32 * 4 + n mod 4 = n"
    and "n div 32 * 32 + n mod 32 = n"
proof -
  have "n div 64 = n div 2 div 32" and "n div 128 = n div 4 div 32"
    by (simp_all add: div_mult2_eq [symmetric])
  then show "n div 64 * 64 + n div 2 mod 32 * 2 + n mod 2 = n"
    and "n div 128 * 128 + n div 4 mod 32 * 4 + n mod 4 = n"
    using div_mult_mod_eq [of n 2] div_mult_mod_eq [of "n div 2" 32]
      div_mult_mod_eq [of n 4] div_mult_mod_eq [of "n div 4" 32] by linarith+
qed simp_all

lemma block_algebra:
  "val 32 [a1, a0 * 4 + b2, b1, b0 * 16 + c1, c0 * 2 + d2, d1, d0 * 8 + e1, e0] =
   val 256 [a1 * 8 + a0, b2 * 64 + b1 * 2 + b0, c1 * 16 + c0, d2 * 128 + d1 * 4 + d0, e1 * 32 + e0]"
  by simp

lemma block_value: "val 32 (block a b c d e) = val 256 (map unat [a, b, c, d, e])"
  unfolding block_def block_algebra by (simp only: split_byte list.map)

lemma digit_bound: "(u::nat) < m \<Longrightarrow> v < k \<Longrightarrow> m * k = n \<Longrightarrow> u * k + v < n"
  using mult_le_mono1 [of "Suc u" m k] by simp

lemma block_bound: "\<forall>x \<in> set (block a b c d e). x < 32"
proof -
  have "unat a mod 8 * 4 + unat b div 64 < 32" by (rule digit_bound [where m = 8]) simp_all
  moreover have "unat b mod 2 * 16 + unat c div 16 < 32" by (rule digit_bound [where m = 2]) simp_all
  moreover have "unat c mod 16 * 2 + unat d div 128 < 32" by (rule digit_bound [where m = 16]) simp_all
  moreover have "unat d mod 4 * 8 + unat e div 32 < 32" by (rule digit_bound [where m = 4]) simp_all
  moreover have "unat b div 2 mod 32 < 32" and "unat d div 4 mod 32 < 32" and "unat e mod 32 < 32"
    by simp_all
  ultimately show ?thesis
    by (simp only: block_def list.set ball_simps byte_shifts simp_thms)
qed

lemma length_16: assumes "length b = 16" 
  shows "b = [b ! 0, b ! 1, b ! 2, b ! 3, b ! 4, b ! 5, b ! 6, b ! 7, b ! 8, b ! 9, b ! 10, b ! 11, b ! 12, b ! 13, b ! 14, b ! 15]"
proof -
  have "[0..<16] = [0, 1, 2, 3, 4, 5, 6, 7, 8, 9, 10, 11, 12, 13, 14, 15]" by code_simp
  then show ?thesis using map_nth[of b] assms by simp
qed

lemma indices_blocks: "map unat (encode_indices b) = [unat (b ! 0) div 32, unat (b ! 0) mod 32] @ 
  block (b ! 1) (b ! 2) (b ! 3) (b ! 4) (b ! 5) @ block (b ! 6) (b ! 7) (b ! 8) (b ! 9) (b ! 10) @
   block (b ! 11) (b ! 12) (b ! 13) (b ! 14) (b ! 15)"
  by (simp only: encode_indices_def block_def list.map append.simps byte_field_values byte_join_values)

lemma indices_bound: "\<forall>x \<in> set (map unat (encode_indices b)). x < 32"
 unfolding indices_blocks set_append using block_bound order_less_trans [OF byte_shifts(2) [of "b ! 0"], of 32] by auto

lemma length_block [simp]: "length (block a b c d e) = 8" by (simp add: block_def)

lemma indices_value:
  assumes "length b = 16" shows "val 32 (map unat (encode_indices b)) = byte_value b"
proof -
  have "b = [b ! 0] @ [b ! 1, b ! 2, b ! 3, b ! 4, b ! 5] @ [b ! 6, b ! 7, b ! 8, b ! 9, b ! 10] @ [b ! 11, b ! 12, b ! 13, b ! 14, b ! 15]"
    using length_16[OF assms] by simp
  then have "byte_value b = byte_value ([b ! 0] @ [b ! 1, b ! 2, b ! 3, b ! 4, b ! 5] @ [b ! 6, b ! 7, b ! 8, b ! 9, b ! 10] @ [b ! 11, b ! 12, b ! 13, b ! 14, b ! 15])" by simp
  also have "\<dots> = val 32 (map unat (encode_indices b))"
    unfolding byte_value_def indices_blocks map_append val_append block_value
    using split_byte(5)[of "unat (b!0)"] by simp
  finally show ?thesis by simp
qed

lemma crockford_sorted: "sorted_wrt (<) crockford"
  by (simp add: crockford_def less_char_def)

lemma crockford_length [simp]: "length crockford = 32"
  by (simp add: crockford_def)

lemma map_crockford_less:
  assumes "length xs = length ys" "\<forall>x \<in> set xs. x < 32" "\<forall>y \<in> set ys. y < 32"
  shows "map ((!) crockford) xs < map ((!) crockford) ys \<longleftrightarrow> xs < ys"
  using assms
proof (induction xs ys rule: list_induct2)
  case (Cons x xs y ys)
  have "crockford ! x < crockford ! y \<longleftrightarrow> x < y" "crockford ! x = crockford ! y \<longleftrightarrow> x = y"
    using sorted_wrt_nth_less[OF crockford_sorted, of x y] sorted_wrt_nth_less[OF crockford_sorted, of y x] Cons.prems
    by (auto) (metis linorder_neqE_nat order_less_asym order_less_irrefl)+
  with Cons show ?case by simp
qed simp

lemma val_zeros [simp]: "val B (replicate n 0) = 0"
  by (induction n) auto

lemma encode_map: "encode b = map ((!) crockford) (map unat (encode_indices b))"
  by (simp add: encode_def)

lemma length_indices [simp]: "length (encode_indices b) = 26"
  by (simp add: encode_indices_def)

lemma digit_of_nth [simp]: "i < 32 \<Longrightarrow> digit_of (crockford ! i) = i"
proof -
  have "list_all (\<lambda>i. digit_of (crockford ! i) = i) [0..<32]" by code_simp
  then show "i < 32 \<Longrightarrow> digit_of (crockford ! i) = i" by (simp add: list_all_iff)
qed

lemma digits_encode: "map digit_of (encode b) = map unat (encode_indices b)"
  using indices_bound [of b] by (simp add: encode_map map_idI)

lemma byte_bound: "\<forall>d \<in> set (map unat (b :: 8 word list)). d < 256"
  by simp

lemma nth_PutUint64: "unat (ucast (drop_bit n (v::64 word)) :: 8 word) = unat v div 2 ^ n mod 256"
  by (simp only: unsigned_ucast_eq unat_drop_bit_eq) (simp add: take_bit_eq_mod drop_bit_eq_div)

lemma val_digits: "val B (map (\<lambda>i. X div B ^ i mod B) (rev [0..<n])) = X mod B ^ n"
proof (induction n)
  case (Suc n)
  have "X mod B ^ Suc n = B ^ n * (X div B ^ n mod B) + X mod B ^ n"
    using mod_mult2_eq [of X "B ^ n" B] by (simp add: mult.commute)
  with Suc show ?case by simp
qed simp

lemma stamp_bytes: "byte_value (take 6 (PutUint64 v)) = unat v div 2 ^ 16 mod 2 ^ 48"
proof -
  have upt: "rev [0..<6] = [5, 4, 3, 2, 1, 0 :: nat]" by code_simp
  have shift: "X div 2 ^ 16 div 256 ^ i = X div 2 ^ (16 + 8 * i)" for X i :: nat
    by (simp add: div_mult2_eq [symmetric] power_add power_mult)
  have "map unat (take 6 (PutUint64 v)) = map (\<lambda>i. unat v div 2 ^ 16 div 256 ^ i mod 256) (rev [0..<6])"
    unfolding upt shift PutUint64_def by (simp add: nth_PutUint64)
  then show ?thesis
    using val_digits [of 256 "unat v div 2 ^ 16" 6] by (simp add: byte_value_def)
qed

lemma unat_shift16: "unat (push_bit 16 (ms :: 64 word)) div 2 ^ 16 = unat ms mod 2 ^ 48"
proof -
  have "unat (push_bit 16 ms) = push_bit 16 (take_bit 48 (unat ms))"
    by (simp add: unsigned_push_bit_eq take_bit_push_bit)
  then show ?thesis by (simp add: push_bit_eq_mult take_bit_eq_mod)
qed

lemma unat_word_of_int_mod: "unat (word_of_int k :: 64 word) mod 2 ^ 48 = nat (k mod 2 ^ 48)"
proof -
  have "unat (word_of_int k :: 64 word) = nat (k mod 2 ^ 64)"
    by (simp add: unat_eq_nat_uint unsigned_of_int take_bit_eq_mod)
  moreover have "k mod 2 ^ 64 mod 2 ^ 48 = k mod (2 ^ 48 :: int)"
    by (simp add: mod_mod_cancel)
  moreover have "nat (k mod 2 ^ 64) mod 2 ^ 48 = nat (k mod 2 ^ 64 mod 2 ^ 48)"
    by (simp add: nat_mod_distrib)
  ultimately show ?thesis by simp
qed

lemma ulid_bytes_append:
  "\<exists>tail. ulid_bytes now r = take 6 (PutUint64 (push_bit 16 (word_of_int (now div 1000000)))) @ tail
     \<and> length tail = 10 \<and> (length r = 10 \<longrightarrow> tail = r)"
  by (auto simp: ulid_bytes_def Let_def rand_Read_def PutUint64_def)

lemma stamp_value:
  "byte_value (take 6 (PutUint64 (push_bit 16 (word_of_int (now div 1000000)))))
   = nat (now div 1000000 mod 2 ^ 48)"
  by (subst stamp_bytes, subst unat_shift16, subst mod_mod_trivial, rule unat_word_of_int_mod)

lemma ulid_value:
  "\<exists>tail. byte_value (ulid_bytes now r) = nat (now div 1000000 mod 2 ^ 48) * 2 ^ 80 + byte_value tail
     \<and> byte_value tail < 2 ^ 80 \<and> length tail = 10 \<and> (length r = 10 \<longrightarrow> tail = r)"
proof -
  obtain tail where t: "ulid_bytes now r =
      take 6 (PutUint64 (push_bit 16 (word_of_int (now div 1000000)))) @ tail"
    "length tail = 10" "length r = 10 \<longrightarrow> tail = r"
    using ulid_bytes_append by blast
  have "byte_value (ulid_bytes now r) = nat (now div 1000000 mod 2 ^ 48) * 256 ^ 10 + byte_value tail"
    unfolding t(1) using stamp_value [of now] t(2) by (simp add: byte_value_def val_append)
  moreover have "byte_value tail < 256 ^ 10"
    using val_bound [OF byte_bound, of tail] t(2) by (simp add: byte_value_def)
  ultimately show ?thesis using t(2,3) by (intro exI [of _ tail]) simp
qed

lemma length_ulid_bytes [simp]: "length (ulid_bytes now r) = 16"
  using ulid_bytes_append [of now r] by (auto simp: PutUint64_def)

lemma encode_value: "length b = 16 \<Longrightarrow> val 32 (map digit_of (encode b)) = byte_value b"
  by (simp add: digits_encode indices_value)

lemma encode_less_iff:
  assumes "length b = 16" and "length c = 16"
  shows "encode b < encode c \<longleftrightarrow> byte_value b < byte_value c"
proof -
  have "encode b < encode c \<longleftrightarrow> map unat (encode_indices b) < map unat (encode_indices c)"
    unfolding encode_map using indices_bound by (intro map_crockford_less) auto
  also have "\<dots> \<longleftrightarrow> val 32 (map unat (encode_indices b)) < val 32 (map unat (encode_indices c))"
    using indices_bound by (intro val_less_iff) auto
  finally show ?thesis using assms by (simp add: indices_value)
qed

lemma byte_value_inject:
  "length b = length c \<Longrightarrow> byte_value b = byte_value c \<Longrightarrow> b = c"
  using val_inject [of "map unat b" "map unat c" 256] byte_bound
  by (auto simp: byte_value_def dest!: map_injective intro: injI unsigned_word_eqI)

lemma encode_inject:
  assumes "length b = 16" and "length c = 16" and "encode b = encode c"
  shows "b = c"
  using assms encode_value [of b] encode_value [of c] byte_value_inject [of b c] by simp

section \<open>Properties\<close>

text \<open>C27: every identifier \<open>New\<close> produces is 26 characters of the Crockford alphabet, the first
  of them at most 7 (the 128-bit value fits 26 base-32 digits with two bits to spare), at
  any time and whatever the entropy source delivers.\<close>

theorem ulid_format:
  "length (ulid_New now r) = 26 \<and> set (ulid_New now r) \<subseteq> set crockford
   \<and> digit_of (hd (ulid_New now r)) < 8"
proof (intro conjI)
  show "length (ulid_New now r) = 26" by (simp add: ulid_New_def encode_def)
  show "set (ulid_New now r) \<subseteq> set crockford"
    using indices_bound [of "ulid_bytes now r"] by (auto simp: ulid_New_def encode_map intro!: nth_mem)
  let ?b = "ulid_bytes now r"
  have "hd (map digit_of (encode ?b)) = unat (?b ! 0) div 32"
    by (simp only: digits_encode indices_blocks append.simps list.sel)
  then show "digit_of (hd (ulid_New now r)) < 8"
    using byte_shifts(2) [of "?b ! 0"] by (simp add: ulid_New_def hd_map encode_def encode_indices_def)
qed

text \<open>C7: \<open>encode\<close> is the base-32 representation of the 128-bit big-endian value: decoding its
  characters gives the value back, it is injective, and the bytewise order of the strings is
  the order of the values.\<close>

theorem encode_is_base32:
  assumes "length b = 16" and "length c = 16"
  shows "val 32 (map digit_of (encode b)) = byte_value b
     \<and> (encode b = encode c \<longleftrightarrow> b = c)
     \<and> (encode b < encode c \<longleftrightarrow> byte_value b < byte_value c)"
  using assms encode_value encode_inject encode_less_iff by blast

theorem encode_is_base32_witness:
  "val 32 (map digit_of (encode (replicate 16 255))) = byte_value (replicate 16 255)
   \<and> encode (replicate 16 0) < encode (replicate 15 0 @ [1])"
proof -
  have "byte_value (replicate 16 0) < byte_value (replicate 15 0 @ [1])"
    by (simp add: byte_value_def map_replicate_const [symmetric] val_append)
  then show ?thesis
    using encode_is_base32 [of "replicate 16 255" "replicate 16 255"]
      encode_is_base32 [of "replicate 16 0" "replicate 15 0 @ [1]"] by simp
qed

text \<open>C26: the first ten characters are the time stamp: they decode to the Unix time in
  milliseconds, reduced modulo two to the 48, and do not depend on the entropy.\<close>

theorem ulid_timestamp:
  "val 32 (map digit_of (take 10 (ulid_New now r))) = nat (now div 1000000 mod 2 ^ 48)"
proof -
  let ?s = "map digit_of (ulid_New now r)"
  obtain tail where v: "byte_value (ulid_bytes now r) = nat (now div 1000000 mod 2 ^ 48) * 2 ^ 80 + byte_value tail"
    "byte_value tail < 2 ^ 80"
    using ulid_value by blast
  have len: "length ?s = 26" using ulid_format by simp
  have "\<forall>d \<in> set ?s. d < 32"
    unfolding ulid_New_def digits_encode by (rule indices_bound)
  then have "\<forall>d \<in> set (drop 10 ?s). d < 32" by (blast dest: in_set_dropD)
  then have "val 32 (drop 10 ?s) < 32 ^ length (drop 10 ?s)" by (rule val_bound)
  with len have "val 32 (drop 10 ?s) < 32 ^ 16" by simp
  moreover have "val 32 ?s = val 32 (take 10 ?s) * 32 ^ 16 + val 32 (drop 10 ?s)"
    using val_append [of 32 "take 10 ?s" "drop 10 ?s"] len by simp
  moreover have "val 32 ?s = byte_value (ulid_bytes now r)"
    by (simp add: ulid_New_def encode_value)
  ultimately have "val 32 (take 10 ?s) = byte_value (ulid_bytes now r) div 2 ^ 80"
    by simp
  with v show ?thesis by (simp add: take_map)
qed

text \<open>C8: identifiers sort by creation time: one made in an earlier millisecond is less, as a
  string, than one made in a later millisecond, whatever their entropy, up to the last
  millisecond 48 bits can hold; a common prefix does not change that.\<close>

theorem ulid_sorted_by_time:
  assumes "0 \<le> t" and "t div 1000000 < u div 1000000" and "u div 1000000 < 2 ^ 48"
  shows "ulid_New t r < ulid_New u s \<and> Prefixed p t r < Prefixed p u s"
proof -
  let ?m = "nat (t div 1000000 mod 2 ^ 48)" and ?n = "nat (u div 1000000 mod 2 ^ 48)"
  obtain x where x: "byte_value (ulid_bytes t r) = ?m * 2 ^ 80 + byte_value x" "byte_value x < 2 ^ 80"
    using ulid_value by blast
  obtain y where y: "byte_value (ulid_bytes u s) = ?n * 2 ^ 80 + byte_value y"
    using ulid_value by blast
  have "?m < ?n" using assms by (simp add: pos_imp_zdiv_nonneg_iff)
  then have "Suc ?m * 2 ^ 80 \<le> ?n * 2 ^ 80" by (intro mult_le_mono1 Suc_leI)
  with x y have "ulid_New t r < ulid_New u s" by (simp add: ulid_New_def encode_less_iff)
  moreover have "p @ a < p @ b \<longleftrightarrow> a < b" for a b :: string
    by (induction p) auto
  ultimately show ?thesis by (simp add: Prefixed_def)
qed

theorem ulid_sorted_by_time_witness:
  "ulid_New 1700000000000000000 (replicate 10 255) < ulid_New 1700000000001000000 []
   \<and> Prefixed ''proj'' 1700000000000000000 [] < Prefixed ''proj'' 1700000000001000000 []"
  using ulid_sorted_by_time [of 1700000000000000000 1700000000001000000 "replicate 10 255" "[]" "''proj''"]
    ulid_sorted_by_time [of 1700000000000000000 1700000000001000000 "[]" "[]" "''proj''"]
  by simp

text \<open>Identifiers collide only when the same millisecond (modulo two to the 48) meets the
  same ten bytes of entropy.\<close>

lemma ulid_unique:
  assumes "length r = 10" and "length s = 10"
  shows "ulid_New t r = ulid_New u s \<longleftrightarrow>
     t div 1000000 mod 2 ^ 48 = u div 1000000 mod 2 ^ 48 \<and> r = s"
proof
  assume eq: "ulid_New t r = ulid_New u s"
  then have "nat (t div 1000000 mod 2 ^ 48) = nat (u div 1000000 mod 2 ^ 48)"
    using ulid_timestamp [of t r] ulid_timestamp [of u s] by simp
  moreover from eq have "ulid_bytes t r = ulid_bytes u s"
    unfolding ulid_New_def by (intro encode_inject) auto
  then have "drop 6 (ulid_bytes t r) = drop 6 (ulid_bytes u s)" by simp
  ultimately show "t div 1000000 mod 2 ^ 48 = u div 1000000 mod 2 ^ 48 \<and> r = s"
    using assms by (simp add: ulid_bytes_def Let_def rand_Read_def PutUint64_def eq_nat_nat_iff)
next
  assume eq: "t div 1000000 mod 2 ^ 48 = u div 1000000 mod 2 ^ 48 \<and> r = s"
  then have "byte_value (ulid_bytes t r) = byte_value (ulid_bytes u s)"
    using ulid_value [of t r] ulid_value [of u s] assms by auto
  then show "ulid_New t r = ulid_New u s"
    using byte_value_inject [of "ulid_bytes t r" "ulid_bytes u s"] by (simp add: ulid_New_def)
qed

end
