(* ===== verification/Idem_Store.thy ===== *)
theory Idem_Store
  imports Go_Base
begin

text \<open>
  Package \<^verbatim>\<open>idempotency\<close> (\<^verbatim>\<open>src/idempotency/iface.go\<close>, \<^verbatim>\<open>src/idempotency/memstore.go\<close>): replay
  protection. The first part is the in-memory store, one definition per method, each run to
  its end before the next begins; the theory \<open>Idem_Race\<close> interleaves them. The injected
  clock is the argument \<open>now\<close> of the methods that read it, responses are pointers (the store
  never looks into them), and a \<open>range\<close> loop takes the order of its visits as an argument.
  The second part states the \<open>Store\<close> interface as a locale over the live view of a store and
  interprets it by the in-memory store.
\<close>

section \<open>The code\<close>

record CachedResponse =
  Status :: int
  Headers :: "(string \<rightharpoonup> string) option"
  Body :: "8 word list"
  StoredAt :: instant

record memEntry =
  resp :: "addr option"
  expiresAt :: instant

record MemStore =
  entries :: "string \<rightharpoonup> memEntry"
  stopped :: bool

type_synonym get_result = "addr option \<times> bool \<times> goerror option"
type_synonym visit_order = "(string \<rightharpoonup> memEntry) \<Rightarrow> (string \<times> memEntry) list"

definition NewMemStore :: MemStore where
  "NewMemStore = \<lparr>entries = Map.empty, stopped = False\<rparr>"

text \<open>The built-in \<open>close\<close> of the stop channel, which panics on a closed channel.\<close>

definition close_stop :: "MemStore \<Rightarrow> unit outcome \<times> MemStore" where
  "close_stop s = (if stopped s then (Panics ''close of closed channel'', s) else (Returns (), s\<lparr>stopped := True\<rparr>))"

definition MemStore_Close :: "MemStore \<Rightarrow> unit outcome \<times> MemStore" where
  "MemStore_Close s = (if stopped s then (Returns (), s) else close_stop s)"

definition MemStore_Get :: "instant \<Rightarrow> string \<Rightarrow> MemStore \<Rightarrow> get_result \<times> MemStore" where
  "MemStore_Get now key s =
     (case entries s key of
        None \<Rightarrow> ((None, False, None), s)
      | Some e \<Rightarrow>
          if time_After now (expiresAt e)
          then ((None, False, None), s\<lparr>entries := (entries s)(key := None)\<rparr>)
          else ((resp e, True, None), s))"

definition MemStore_Set ::
  "instant \<Rightarrow> string \<Rightarrow> addr option \<Rightarrow> duration \<Rightarrow> MemStore \<Rightarrow> goerror option \<times> MemStore" where
  "MemStore_Set now key r ttl s =
     (let ttl = (if ttl \<le> 0 then 24 * Hour else ttl)
      in (None, s\<lparr>entries := (entries s)(key \<mapsto> \<lparr>resp = r, expiresAt = time_Add now ttl\<rparr>)\<rparr>))"

definition MemStore_Delete :: "string \<Rightarrow> MemStore \<Rightarrow> goerror option \<times> MemStore" where
  "MemStore_Delete key s = (None, s\<lparr>entries := (entries s)(key := None)\<rparr>)"

definition MemStore_Len :: "MemStore \<Rightarrow> nat" where
  "MemStore_Len s = card (dom (entries s))"

definition purgeExpired :: "visit_order \<Rightarrow> instant \<Rightarrow> MemStore \<Rightarrow> MemStore" where
  "purgeExpired visit now s =
     s\<lparr>entries :=
        fold (\<lambda>(k, e) m. if time_After now (expiresAt e) then m(k := None) else m)
          (visit (entries s)) (entries s)\<rparr>"

text \<open>
  The sweeper: each turn of its loop takes one ready case of the select, the closed stop
  channel or a tick at some instant. The second component says whether it has returned.
\<close>

datatype sweep_case = StopCase | TickCase instant

fun sweep :: "visit_order \<Rightarrow> sweep_case list \<Rightarrow> MemStore \<Rightarrow> MemStore \<times> bool" where
  "sweep visit [] s = (s, False)"
| "sweep visit (StopCase # cs) s = (s, True)"
| "sweep visit (TickCase now # cs) s = sweep visit cs (purgeExpired visit now s)"

section \<open>The Store interface\<close>

datatype store_op =
    GetOp instant string
  | SetOp instant string "addr option" duration
  | DeleteOp string

fun store_exec ::
  "(instant \<Rightarrow> string \<Rightarrow> 's \<Rightarrow> get_result \<times> 's) \<Rightarrow>
   (instant \<Rightarrow> string \<Rightarrow> addr option \<Rightarrow> duration \<Rightarrow> 's \<Rightarrow> goerror option \<times> 's) \<Rightarrow>
   (string \<Rightarrow> 's \<Rightarrow> goerror option \<times> 's) \<Rightarrow> store_op \<Rightarrow> 's \<Rightarrow> 's" where
  "store_exec get put delete (GetOp now k) s = snd (get now k s)"
| "store_exec get put delete (SetOp now k r ttl) s = snd (put now k r ttl s)"
| "store_exec get put delete (DeleteOp k) s = snd (delete k s)"

text \<open>The operations that may run between a Set of key \<open>k\<close> and its replay at time \<open>t\<close>.\<close>

fun op_spares :: "string \<Rightarrow> instant \<Rightarrow> store_op \<Rightarrow> bool" where
  "op_spares k t (GetOp now k') = (now \<le> t)"
| "op_spares k t (SetOp now k' r ttl) = (k' \<noteq> k)"
| "op_spares k t (DeleteOp k') = (k' \<noteq> k)"

definition found :: "addr option option \<Rightarrow> get_result" where
  "found v = (case v of None \<Rightarrow> (None, False, None) | Some r \<Rightarrow> (r, True, None))"

locale idempotency_store =
  fixes get :: "instant \<Rightarrow> string \<Rightarrow> 's \<Rightarrow> get_result \<times> 's"
    and put :: "instant \<Rightarrow> string \<Rightarrow> addr option \<Rightarrow> duration \<Rightarrow> 's \<Rightarrow> goerror option \<times> 's"
    and delete :: "string \<Rightarrow> 's \<Rightarrow> goerror option \<times> 's"
    and view :: "instant \<Rightarrow> 's \<Rightarrow> string \<Rightarrow> addr option option"
  assumes get_result: "fst (get now k s) = found (view now s k)"
    and get_view: "now \<le> t \<Longrightarrow> view t (snd (get now k s)) = view t s"
    and set_result: "fst (put now k r ttl s) = None"
    and set_view: "0 < ttl \<Longrightarrow> view t (snd (put now k r ttl s)) =
           (view t s)(k := if t \<le> now + ttl then Some r else None)"
    and set_other: "k' \<noteq> k \<Longrightarrow> view t (snd (put now k r ttl s)) k' = view t s k'"
    and delete_result: "fst (delete k s) = None"
    and delete_view: "view t (snd (delete k s)) = (view t s)(k := None)"
    and view_expires: "view t s k = None \<Longrightarrow> t \<le> u \<Longrightarrow> view u s k = None"
begin

lemma spared: "op_spares k t p \<Longrightarrow> view t (store_exec get put delete p s) k = view t s k"
  by (cases p) (auto simp: get_view set_other delete_view)

lemma spared_run:
  "list_all (op_spares k t) ops \<Longrightarrow> view t (fold (store_exec get put delete) ops s) k = view t s k"
  by (induction ops arbitrary: s) (auto simp: spared)

lemma replay:
  assumes "0 < ttl" and "t \<le> now + ttl" and "list_all (op_spares k t) ops"
  shows "fst (get t k (fold (store_exec get put delete) ops (snd (put now k r ttl s)))) = (r, True, None)"
  using assms by (simp add: get_result spared_run set_view found_def)

lemma overwrite:
  assumes "0 < ttl"
  shows "view t (snd (put now k r ttl (snd (put now' k r' ttl' s)))) = view t (snd (put now k r ttl s))"
  using assms by (auto simp: set_view fun_eq_iff set_other)

lemma delete_idempotent: "view t (snd (delete k (snd (delete k s)))) = view t (snd (delete k s))"
  by (simp add: delete_view)

lemma not_before_expiry:
  assumes "view t s k = Some r" and "u \<le> t"
  shows "\<exists>r'. fst (get u k s) = (r', True, None)"
  using assms view_expires [of u s k t] by (cases "view u s k") (auto simp: get_result found_def)

end

section \<open>The in-memory store implements the interface\<close>

text \<open>What a store serves at an instant: the entries whose expiry is not in the past.\<close>

definition live :: "instant \<Rightarrow> MemStore \<Rightarrow> string \<Rightarrow> addr option option" where
  "live now s k =
     (case entries s k of
        None \<Rightarrow> None
      | Some e \<Rightarrow> if time_After now (expiresAt e) then None else Some (resp e))"

abbreviation mem_exec :: "store_op \<Rightarrow> MemStore \<Rightarrow> MemStore" where
  "mem_exec \<equiv> store_exec MemStore_Get MemStore_Set MemStore_Delete"

lemmas store_defs =
  MemStore_Get_def MemStore_Set_def MemStore_Delete_def live_def time_After_def time_Add_def

interpretation mem: idempotency_store MemStore_Get MemStore_Set MemStore_Delete live
proof unfold_locales
  show "fst (MemStore_Get now k s) = found (live now s k)" for now k s
    by (auto simp: store_defs found_def split: option.splits)
  show "live t (snd (MemStore_Get now k s)) = live t s" if "now \<le> t" for now t k s
    using that by (auto simp: store_defs fun_eq_iff split: option.splits)
  show "fst (MemStore_Set now k r ttl s) = None" for now k r ttl s
    by (simp add: store_defs)
  show "live t (snd (MemStore_Set now k r ttl s)) = (live t s)(k := if t \<le> now + ttl then Some r else None)"
    if "0 < ttl" for ttl t now k r s
    using that by (auto simp: store_defs fun_eq_iff)
  show "live t (snd (MemStore_Set now k r ttl s)) k' = live t s k'" if "k' \<noteq> k" for k' k t now r ttl s
    using that by (auto simp: store_defs Let_def)
  show "fst (MemStore_Delete k s) = None" for k s
    by (simp add: store_defs)
  show "live t (snd (MemStore_Delete k s)) = (live t s)(k := None)" for t k s
    by (auto simp: store_defs fun_eq_iff)
  show "live u s k = None" if "live t s k = None" and "t \<le> u" for t u k s
    using that by (auto simp: store_defs split: option.splits if_splits)
qed

section \<open>Purging\<close>

lemma fold_purge:
  assumes "distinct (map fst kvs)"
  shows "fold (\<lambda>(k, e) m. if time_After now (expiresAt e) then m(k := None) else m) kvs m k =
    (case map_of kvs k of
       Some e \<Rightarrow> if time_After now (expiresAt e) then None else m k
     | None \<Rightarrow> m k)"
  using assms
proof (induction kvs arbitrary: m)
  case (Cons kv kvs)
  obtain k' e where "kv = (k', e)" by fastforce
  with Cons show ?case
    by (auto simp: map_of_eq_None_iff [THEN iffD2] split: option.splits)
qed simp

lemma entries_purge:
  assumes "enumerates (visit (entries s)) (entries s)"
  shows "entries (purgeExpired visit now s) k =
    (case entries s k of
       Some e \<Rightarrow> if time_After now (expiresAt e) then None else Some e
     | None \<Rightarrow> None)"
  using assms by (auto simp: purgeExpired_def enumerates_def fold_purge split: option.splits)

lemma entries_Set_other: "k' \<noteq> k \<Longrightarrow> entries (snd (MemStore_Set now k r ttl s)) k' = entries s k'"
  by (simp add: MemStore_Set_def Let_def)

section \<open>Properties\<close>

text \<open>C4: replay protection: after \<open>Set(key, resp, ttl)\<close> with a positive ttl at time \<open>now\<close>, a
  \<open>Get(key)\<close> at any time up to \<open>now + ttl\<close> returns the very response that was set, with no
  error, whatever other operations ran in between on the store, as long as none of them sets
  or deletes that key and no Get ran at a later time.\<close>

theorem MemStore_replay:
  assumes "0 < ttl" and "t \<le> now + ttl" and "list_all (op_spares k t) ops"
  shows "fst (MemStore_Get t k (fold mem_exec ops (snd (MemStore_Set now k r ttl s)))) = (r, True, None)"
  using assms by (rule mem.replay)

theorem MemStore_replay_witness:
  "fst (MemStore_Get 15 ''k''
     (fold mem_exec [GetOp 12 ''k'', SetOp 13 ''j'' None 1, DeleteOp ''i'']
       (snd (MemStore_Set 10 ''k'' (Some 3) 5 NewMemStore)))) = (Some 3, True, None)"
  using MemStore_replay [of 5 15 10 "''k''" "[GetOp 12 ''k'', SetOp 13 ''j'' None 1, DeleteOp ''i'']"
      "Some 3" NewMemStore]
  by simp

text \<open>An entry is served up to and including its expiry instant and never after it: past
  \<open>now + ttl\<close> a Get misses and removes the entry, and nothing but a new Set brings it back.\<close>

lemma MemStore_expiry:
  assumes "0 < ttl" and "now + ttl < t" and "list_all (op_spares k t) ops"
  shows "fst (MemStore_Get t k (fold mem_exec ops (snd (MemStore_Set now k r ttl s)))) = (None, False, None)
    \<and> entries (snd (MemStore_Get t k (fold mem_exec ops (snd (MemStore_Set now k r ttl s))))) k = None"
proof -
  let ?s = "fold mem_exec ops (snd (MemStore_Set now k r ttl s))"
  have "live t ?s k = None"
    using assms by (simp add: mem.spared_run mem.set_view)
  then show ?thesis
    by (auto simp: store_defs split: option.splits if_splits)
qed

text \<open>A ttl that is zero or negative means 24 hours: such a Set is the same as a Set with
  24 hours, so the entry is served for 24 hours to the nanosecond and no longer.\<close>

lemma MemStore_default_ttl:
  assumes "ttl \<le> 0"
  shows "MemStore_Set now k r ttl s = MemStore_Set now k r (24 * Hour) s
    \<and> (live t (snd (MemStore_Set now k r ttl s)) k = Some r \<longleftrightarrow> t \<le> now + 86400000000000)"
  using assms by (simp add: store_defs Hour_def Second_def Let_def)

text \<open>The sweeper's purge removes exactly the expired entries, in whatever order the range
  loop visits them: what is served from then on is unchanged, every entry left is unexpired,
  and the count does not grow.\<close>

lemma purgeExpired_exact:
  assumes "enumerates (visit (entries s)) (entries s)"
  shows "(\<forall>t \<ge> now. live t (purgeExpired visit now s) = live t s)
    \<and> dom (entries (purgeExpired visit now s)) = {k. live now s k \<noteq> None}
    \<and> MemStore_Len (purgeExpired visit now s) \<le> MemStore_Len s"
proof (intro conjI allI impI ext)
  fix t k
  assume "now \<le> t"
  then show "live t (purgeExpired visit now s) k = live t s k"
    by (auto simp: live_def entries_purge [of visit s, OF assms] time_After_def split: option.splits)
next
  show dom: "dom (entries (purgeExpired visit now s)) = {k. live now s k \<noteq> None}"
    by (auto simp: dom_def entries_purge [of visit s, OF assms] live_def split: option.splits if_splits)
  show "MemStore_Len (purgeExpired visit now s) \<le> MemStore_Len s"
    unfolding MemStore_Len_def dom using enumerates_finite [OF assms]
    by (rule card_mono) (auto simp: live_def split: option.splits)
qed

text \<open>Of the map operations only a Get that meets its own expired key evicts anything: a
  Set or a Delete keeps every other entry, expired or not, and a Get keeps every entry of
  another key.\<close>

lemma MemStore_no_other_eviction:
  assumes "k' \<noteq> k"
  shows "entries (snd (MemStore_Set now k r ttl s)) k' = entries s k'
    \<and> entries (snd (MemStore_Delete k s)) k' = entries s k'
    \<and> entries (snd (MemStore_Get now k s)) k' = entries s k'"
  using assms
  by (auto simp: entries_Set_other MemStore_Delete_def MemStore_Get_def split: option.splits)

text \<open>Last write wins and Delete is idempotent: a second Set of a key hides the first
  completely, and deleting a key twice serves the same as deleting it once, with no error.\<close>

lemma MemStore_overwrite_delete:
  assumes "0 < ttl"
  shows "live t (snd (MemStore_Set now k r ttl (snd (MemStore_Set now' k r' ttl' s))))
      = live t (snd (MemStore_Set now k r ttl s))
    \<and> live t (snd (MemStore_Delete k (snd (MemStore_Delete k s)))) = live t (snd (MemStore_Delete k s))
    \<and> live t (snd (MemStore_Delete k s)) k = None
    \<and> fst (MemStore_Delete k s) = None"
  using mem.overwrite [OF assms] mem.delete_idempotent mem.delete_view mem.delete_result by simp

end
