(* ===== verification/Idem_Race.thy ===== *)
theory Idem_Race
  imports Idem_Store
begin

text \<open>
  The in-memory store under concurrent use (\<^verbatim>\<open>src/idempotency/memstore.go\<close>). \<open>Set\<close>, \<open>Delete\<close>
  and \<open>purgeExpired\<close> change the map in one critical section; \<open>Get\<close> looks the entry up under
  the read lock, compares times with no lock held, and deletes under the write lock, so it is
  three steps; \<open>Close\<close> looks at the channel and closes it in two. A labelled step relation
  interleaves any number of goroutines over the definitions of \<open>Idem_Store\<close>. The ghost field
  \<open>sets\<close> records what was ever stored.
\<close>

section \<open>Goroutines and their steps\<close>

datatype pc =
    Ready
  | Looked string memEntry
  | Evicting string
  | Served string "addr option" instant
  | Missed string
  | Closing
  | ClosePanicked

record race =
  store :: MemStore
  clock :: instant
  pcs :: "nat \<Rightarrow> pc"
  sets :: "(string \<times> addr option \<times> instant) set"

datatype label =
    Tick | GetStep nat | EvictStep nat string | SetStep nat string | DeleteStep nat string
  | PurgeStep | CloseStep nat

definition race_start :: race where
  "race_start = \<lparr>store = NewMemStore, clock = 0, pcs = (\<lambda>_. Ready), sets = {}\<rparr>"

definition move :: "race \<Rightarrow> nat \<Rightarrow> pc \<Rightarrow> race" where
  "move s i p = s\<lparr>pcs := (pcs s)(i := p)\<rparr>"

definition race_set :: "race \<Rightarrow> string \<Rightarrow> addr option \<Rightarrow> duration \<Rightarrow> race" where
  "race_set s k r ttl =
     (let st = snd (MemStore_Set (clock s) k r ttl (store s))
      in s\<lparr>store := st, sets := insert (k, r, expiresAt (the (entries st k))) (sets s)\<rparr>)"

definition race_evict :: "race \<Rightarrow> string \<Rightarrow> race" where
  "race_evict s k = s\<lparr>store := (store s)\<lparr>entries := (entries (store s))(k := None)\<rparr>\<rparr>"

inductive mem_step :: "race \<Rightarrow> label \<Rightarrow> race \<Rightarrow> bool" where
  tick: "clock s \<le> t \<Longrightarrow> mem_step s Tick (s\<lparr>clock := t\<rparr>)"
| get_miss: "pcs s i = Ready \<Longrightarrow> entries (store s) k = None \<Longrightarrow>
    mem_step s (GetStep i) (move s i (Missed k))"
| get_look: "pcs s i = Ready \<Longrightarrow> entries (store s) k = Some e \<Longrightarrow>
    mem_step s (GetStep i) (move s i (Looked k e))"
| get_hit: "pcs s i = Looked k e \<Longrightarrow> \<not> time_After (clock s) (expiresAt e) \<Longrightarrow>
    mem_step s (GetStep i) (move s i (Served k (resp e) (clock s)))"
| get_expired: "pcs s i = Looked k e \<Longrightarrow> time_After (clock s) (expiresAt e) \<Longrightarrow>
    mem_step s (GetStep i) (move s i (Evicting k))"
| get_evict: "pcs s i = Evicting k \<Longrightarrow>
    mem_step s (EvictStep i k) (move (race_evict s k) i (Missed k))"
| get_next_served: "pcs s i = Served k r t \<Longrightarrow> mem_step s (GetStep i) (move s i Ready)"
| get_next_missed: "pcs s i = Missed k \<Longrightarrow> mem_step s (GetStep i) (move s i Ready)"
| set: "pcs s i = Ready \<Longrightarrow> mem_step s (SetStep i k) (race_set s k r ttl)"
| delete: "pcs s i = Ready \<Longrightarrow>
    mem_step s (DeleteStep i k) (s\<lparr>store := snd (MemStore_Delete k (store s))\<rparr>)"
| purge: "now \<le> clock s \<Longrightarrow> enumerates (visit (entries (store s))) (entries (store s)) \<Longrightarrow>
    mem_step s PurgeStep (s\<lparr>store := purgeExpired visit now (store s)\<rparr>)"
| close_again: "pcs s i = Ready \<Longrightarrow> stopped (store s) \<Longrightarrow> mem_step s (CloseStep i) s"
| close_look: "pcs s i = Ready \<Longrightarrow> \<not> stopped (store s) \<Longrightarrow>
    mem_step s (CloseStep i) (move s i Closing)"
| close_do: "pcs s i = Closing \<Longrightarrow> close_stop (store s) = (Returns (), st) \<Longrightarrow>
    mem_step s (CloseStep i) (move (s\<lparr>store := st\<rparr>) i Ready)"
| close_panic: "pcs s i = Closing \<Longrightarrow> close_stop (store s) = (Panics v, st) \<Longrightarrow>
    mem_step s (CloseStep i) (move s i ClosePanicked)"

inductive_cases evict_stepE: "mem_step s (EvictStep i k) t"

abbreviation mem_moves :: "race \<Rightarrow> race \<Rightarrow> bool" where
  "mem_moves s t \<equiv> (\<exists>l. mem_step s l t)"

text \<open>What the store and the goroutines hold was once stored under that key.\<close>

definition race_inv :: "race \<Rightarrow> bool" where
  "race_inv s \<longleftrightarrow>
     (\<forall>k e. entries (store s) k = Some e \<longrightarrow> (k, resp e, expiresAt e) \<in> sets s)
   \<and> (\<forall>i k e. pcs s i = Looked k e \<longrightarrow> (k, resp e, expiresAt e) \<in> sets s)
   \<and> (\<forall>i k r t. pcs s i = Served k r t \<longrightarrow> (\<exists>x. (k, r, x) \<in> sets s \<and> t \<le> x \<and> t \<le> clock s))"

section \<open>The invariant\<close>

lemma move_simps [simp]:
  "store (move s i p) = store s" "clock (move s i p) = clock s" "sets (move s i p) = sets s"
  "pcs (move s i p) = (pcs s)(i := p)"
  by (simp_all add: move_def)

lemma race_evict_simps [simp]:
  "clock (race_evict s k) = clock s" "pcs (race_evict s k) = pcs s" "sets (race_evict s k) = sets s"
  "entries (store (race_evict s k)) = (entries (store s))(k := None)"
  by (simp_all add: race_evict_def)

lemma race_set_simps [simp]:
  "clock (race_set s k r ttl) = clock s" "pcs (race_set s k r ttl) = pcs s"
  "store (race_set s k r ttl) = snd (MemStore_Set (clock s) k r ttl (store s))"
  by (simp_all add: race_set_def Let_def)

lemma race_inv_set: "race_inv s \<Longrightarrow> race_inv (race_set s k r ttl)"
  unfolding race_inv_def by (auto simp: race_set_def MemStore_Set_def Let_def; blast)

lemma race_inv_purge:
  assumes "race_inv s" and "enumerates (visit (entries (store s))) (entries (store s))"
  shows "race_inv (s\<lparr>store := purgeExpired visit now (store s)\<rparr>)"
  using assms(1) unfolding race_inv_def
  by (auto simp: entries_purge [of visit "store s", OF assms(2)] split: option.splits if_splits)

lemma race_inv_step: "mem_step s l t \<Longrightarrow> race_inv s \<Longrightarrow> race_inv t"
proof (induction rule: mem_step.induct)
  case (tick s t)
  then show ?case unfolding race_inv_def by (auto; meson order_trans)
next
  case (get_hit s i k e)
  then show ?case unfolding race_inv_def by (auto simp: time_After_def not_less) blast
next
  case (set s i k r ttl)
  then show ?case by (simp add: race_inv_set)
next
  case (purge now s visit)
  then show ?case by (simp add: race_inv_purge)
qed (auto simp: race_inv_def MemStore_Delete_def close_stop_def split: if_splits)

interpretation race_sys: step_system "\<lambda>s. s = race_start" mem_moves race_inv
proof unfold_locales
  show "race_inv s" if "s = race_start" for s
    using that by (simp add: race_inv_def race_start_def NewMemStore_def)
  show "race_inv t" if "race_inv s" and "mem_moves s t" for s t
    using that by (blast intro: race_inv_step)
qed

lemma moves_start: "mem_moves\<^sup>*\<^sup>* s s"
  by simp

lemma moves_snoc: "mem_moves\<^sup>*\<^sup>* r s \<Longrightarrow> mem_step s l t \<Longrightarrow> mem_moves\<^sup>*\<^sup>* r t"
  by (rule rtranclp.rtrancl_into_rtrancl) blast+

lemmas race_run_defs = race_start_def NewMemStore_def MemStore_Set_def time_Add_def time_After_def
  race_set_def Let_def

text \<open>Which steps change what is served for a key.\<close>

lemma live_step:
  assumes "mem_step s l t"
    and "\<forall>i. l \<noteq> EvictStep i k \<and> l \<noteq> SetStep i k \<and> l \<noteq> DeleteStep i k"
  shows "live (clock t) (store t) k = live (clock t) (store s) k"
  using assms
proof (induction rule: mem_step.induct)
  case (set s i k' r ttl)
  then show ?case by (simp add: mem.set_other)
next
  case (delete s i k')
  then show ?case by (simp add: mem.delete_view)
next
  case (purge now s visit)
  then show ?case
    by (auto simp: live_def entries_purge [of visit "store s"] time_After_def split: option.splits)
qed (auto simp: live_def race_evict_def close_stop_def split: if_splits)

section \<open>Properties\<close>

text \<open>C14: under every interleaving of any number of goroutines calling \<open>Get\<close>, \<open>Set\<close>, \<open>Delete\<close>
  and \<open>Close\<close> with the sweeper's purges, a \<open>Get\<close> that reports a hit returns a response that
  some \<open>Set\<close> stored under that very key and that had not expired when \<open>Get\<close> read the clock.\<close>

theorem Get_serves_only_stored:
  assumes "mem_moves\<^sup>*\<^sup>* race_start s" and "pcs s i = Served k r t"
  shows "\<exists>x. (k, r, x) \<in> sets s \<and> t \<le> x"
proof -
  have "race_inv s" by (rule race_sys.inv_reachable [OF refl assms(1)])
  then show ?thesis using assms(2) unfolding race_inv_def by blast
qed

theorem Get_serves_only_stored_witness:
  "\<exists>s. mem_moves\<^sup>*\<^sup>* race_start s \<and> pcs s 0 = Served ''k'' (Some 1) 0
     \<and> (\<exists>x. (''k'', Some 1, x) \<in> sets s \<and> 0 \<le> x)"
proof -
  let ?e = "\<lparr>resp = Some 1, expiresAt = 1\<rparr> :: memEntry"
  define s1 where "s1 = race_set race_start ''k'' (Some 1) 1"
  define s2 where "s2 = move s1 0 (Looked ''k'' ?e)"
  define s3 where "s3 = move s2 0 (Served ''k'' (Some 1) 0)"
  note defs = s1_def s2_def s3_def race_run_defs
  have "mem_step race_start (SetStep 0 ''k'') s1"
    unfolding s1_def by (rule mem_step.set) (simp add: race_start_def)
  moreover have "mem_step s1 (GetStep 0) s2"
    unfolding s2_def by (rule mem_step.get_look) (simp_all add: defs)
  moreover have "mem_step s2 (GetStep 0) s3"
    using mem_step.get_hit [of s2 0 "''k''" ?e] by (simp add: defs)
  ultimately have run: "mem_moves\<^sup>*\<^sup>* race_start s3"
    using moves_snoc moves_start by meson
  moreover have "pcs s3 0 = Served ''k'' (Some 1) 0" by (simp add: s3_def)
  ultimately show ?thesis using Get_serves_only_stored by blast
qed

text \<open>The only steps that change what is served for a key are a Set or a Delete of that key
  and the delete of a Get that found the key expired; in particular the sweeper and the Gets,
  Sets and Deletes of other keys never do.\<close>

lemma served_changes_only_by:
  assumes "mem_step s l t" and "live (clock t) (store t) k \<noteq> live (clock t) (store s) k"
  shows "\<exists>i. l = EvictStep i k \<or> l = SetStep i k \<or> l = DeleteStep i k"
  using assms live_step by blast

text \<open>C31: the lazy eviction of \<open>Get\<close> can delete a fresh entry: there is a run in which a \<open>Set\<close>
  has completed, its entry is live, and the very next step, the delete of a \<open>Get\<close> that had
  looked at the key's previous entry, removes it although no one called \<open>Delete\<close>; a \<open>Get\<close> at
  the same instant then misses.\<close>

theorem Get_evicts_fresh_entry:
  "\<exists>s t. mem_moves\<^sup>*\<^sup>* race_start s
     \<and> live (clock s) (store s) ''k'' = Some (Some 2)
     \<and> mem_step s (EvictStep 0 ''k'') t
     \<and> clock t = clock s
     \<and> live (clock t) (store t) ''k'' = None
     \<and> fst (MemStore_Get (clock t) ''k'' (store t)) = (None, False, None)"
proof -
  let ?e = "\<lparr>resp = Some 1, expiresAt = 1\<rparr> :: memEntry"
  define s1 where "s1 = race_set race_start ''k'' (Some 1) 1"
  define s2 where "s2 = s1\<lparr>clock := 2\<rparr>"
  define s3 where "s3 = move s2 0 (Looked ''k'' ?e)"
  define s4 where "s4 = move s3 0 (Evicting ''k'')"
  define s5 where "s5 = race_set s4 ''k'' (Some 2) 10"
  define s6 where "s6 = move (race_evict s5 ''k'') 0 (Missed ''k'')"
  note defs = s1_def s2_def s3_def s4_def s5_def s6_def race_run_defs
  have "mem_step race_start (SetStep 0 ''k'') s1"
    unfolding s1_def by (rule mem_step.set) (simp add: race_start_def)
  moreover have "mem_step s1 Tick s2"
    unfolding s2_def by (rule mem_step.tick) (simp add: defs)
  moreover have "mem_step s2 (GetStep 0) s3"
    unfolding s3_def by (rule mem_step.get_look) (simp_all add: defs)
  moreover have "mem_step s3 (GetStep 0) s4"
    unfolding s4_def by (rule mem_step.get_expired [of _ _ _ ?e]) (simp_all add: defs)
  moreover have "mem_step s4 (SetStep 1 ''k'') s5"
    unfolding s5_def by (rule mem_step.set) (simp add: defs)
  ultimately have "mem_moves\<^sup>*\<^sup>* race_start s5"
    using moves_snoc moves_start by meson
  moreover have "mem_step s5 (EvictStep 0 ''k'') s6"
    unfolding s6_def by (rule mem_step.get_evict) (simp add: defs)
  moreover have "live (clock s5) (store s5) ''k'' = Some (Some 2)"
    by (simp add: defs live_def)
  moreover have "clock s6 = clock s5" and "live (clock s6) (store s6) ''k'' = None"
    and "fst (MemStore_Get (clock s6) ''k'' (store s6)) = (None, False, None)"
    by (simp_all add: s6_def live_def MemStore_Get_def)
  ultimately show ?thesis by blast
qed

text \<open>C32: \<open>Close\<close> called from two goroutines can panic: both may find the channel open before
  either closes it, and the second close of a closed channel panics. Calls that do not overlap
  never panic: \<open>Close\<close> as a whole returns, stops the store and leaves the entries as they are,
  and every later call of it returns too and changes nothing.\<close>

theorem Close_concurrent_panics:
  "(\<exists>s. mem_moves\<^sup>*\<^sup>* race_start s \<and> pcs s 1 = ClosePanicked)
   \<and> (\<forall>s. \<exists>s'. MemStore_Close s = (Returns (), s') \<and> stopped s' \<and> entries s' = entries s
        \<and> MemStore_Close s' = (Returns (), s'))"
proof
  define s1 where "s1 = move race_start 0 Closing"
  define s2 where "s2 = move s1 1 Closing"
  define s3 where "s3 = move (s2\<lparr>store := (store s2)\<lparr>stopped := True\<rparr>\<rparr>) 0 Ready"
  define s4 where "s4 = move s3 1 ClosePanicked"
  note defs = s1_def s2_def s3_def s4_def race_start_def NewMemStore_def close_stop_def
  have "mem_step race_start (CloseStep 0) s1"
    unfolding s1_def by (rule mem_step.close_look) (simp_all add: race_start_def NewMemStore_def)
  moreover have "mem_step s1 (CloseStep 1) s2"
    unfolding s2_def by (rule mem_step.close_look) (simp_all add: defs)
  moreover have "mem_step s2 (CloseStep 0) s3"
    unfolding s3_def by (rule mem_step.close_do) (simp_all add: defs)
  moreover have "mem_step s3 (CloseStep 1) s4"
    unfolding s4_def by (rule mem_step.close_panic) (simp_all add: defs)
  ultimately have "mem_moves\<^sup>*\<^sup>* race_start s4"
    using moves_snoc moves_start by meson
  then show "\<exists>s. mem_moves\<^sup>*\<^sup>* race_start s \<and> pcs s 1 = ClosePanicked"
    by (auto simp: s4_def)
  show "\<forall>s. \<exists>s'. MemStore_Close s = (Returns (), s') \<and> stopped s' \<and> entries s' = entries s
      \<and> MemStore_Close s' = (Returns (), s')"
    by (auto simp: MemStore_Close_def close_stop_def)
qed

end
