(* ===== verification/Idem_Refine.thy ===== *)
theory Idem_Refine
  imports Idem_Store
begin

text \<open>
  An abstract specification of the replay store (the contract of \<^verbatim>\<open>src/idempotency/iface.go\<close>) and the
  refinement that \<open>MemStore\<close> implements it. The specification is a map from keys to responses
  with an expiry; it never evicts anything, and a Get just does not see what has expired. The
  in-memory store evicts in Get and in the sweeper, which no caller can observe.
\<close>

section \<open>Specification\<close>

datatype store_event = Call store_op | Purge instant

type_synonym ttl_map = "string \<rightharpoonup> addr option \<times> instant"

definition ttl_live :: "instant \<Rightarrow> ttl_map \<Rightarrow> string \<Rightarrow> addr option option" where
  "ttl_live t m k = (case m k of None \<Rightarrow> None | Some (r, x) \<Rightarrow> if t \<le> x then Some r else None)"

fun spec_event :: "store_event \<Rightarrow> ttl_map \<Rightarrow> get_result option \<times> ttl_map" where
  "spec_event (Call (GetOp now k)) m = (Some (found (ttl_live now m k)), m)"
| "spec_event (Call (SetOp now k r ttl)) m = (None, m(k \<mapsto> (r, now + (if 0 < ttl then ttl else 86400000000000))))"
| "spec_event (Call (DeleteOp k)) m = (None, m(k := None))"
| "spec_event (Purge now) m = (None, m)"

text \<open>The same events on the store, with the sweeper's purge.\<close>

fun mem_event :: "visit_order \<Rightarrow> store_event \<Rightarrow> MemStore \<Rightarrow> get_result option \<times> MemStore" where
  "mem_event visit (Call (GetOp now k)) s = (let (r, s') = MemStore_Get now k s in (Some r, s'))"
| "mem_event visit (Call (SetOp now k r ttl)) s = (None, snd (MemStore_Set now k r ttl s))"
| "mem_event visit (Call (DeleteOp k)) s = (None, snd (MemStore_Delete k s))"
| "mem_event visit (Purge now) s = (None, purgeExpired visit now s)"

text \<open>
  Histories in which the clock does not run backwards from a time \<open>t\<close> on. A purge may have read
  the clock long before it got the lock.
\<close>

fun chronological :: "instant \<Rightarrow> store_event list \<Rightarrow> bool" where
  "chronological t [] = True"
| "chronological t (Call (GetOp now k) # es) = (t \<le> now \<and> chronological now es)"
| "chronological t (Call (SetOp now k r ttl) # es) = (t \<le> now \<and> chronological now es)"
| "chronological t (Call (DeleteOp k) # es) = chronological t es"
| "chronological t (Purge now # es) = chronological (max t now) es"

definition refines :: "instant \<Rightarrow> MemStore \<Rightarrow> ttl_map \<Rightarrow> bool" where
  "refines t s m \<longleftrightarrow> finite (dom (entries s)) \<and> (\<forall>u \<ge> t. live u s = ttl_live u m)"

definition visits_all :: "visit_order \<Rightarrow> bool" where
  "visits_all visit \<longleftrightarrow> (\<forall>m. finite (dom m) \<longrightarrow> enumerates (visit m) m)"

section \<open>The refinement\<close>

lemma refines_later: "refines t s m \<Longrightarrow> t \<le> u \<Longrightarrow> refines u s m"
  by (simp add: refines_def)

lemma refines_get:
  assumes "refines t s m" and "t \<le> now"
  shows "fst (MemStore_Get now k s) = found (ttl_live now m k) \<and> refines now (snd (MemStore_Get now k s)) m"
  using assms mem.get_result [of now k s] mem.get_view [of now _ k s]
  by (auto simp: refines_def MemStore_Get_def split: option.splits)

lemma refines_set:
  assumes "refines t s m" and "t \<le> now"
  shows "refines now (snd (MemStore_Set now k r ttl s)) (m(k \<mapsto> (r, now + (if 0 < ttl then ttl else 86400000000000))))"
  using assms
  by (auto simp: refines_def live_def ttl_live_def MemStore_Set_def Let_def fun_eq_iff time_After_def time_Add_def Hour_def Second_def)

lemma refines_delete: "refines t s m \<Longrightarrow> refines t (snd (MemStore_Delete k s)) (m(k := None))"
  by (auto simp: refines_def live_def ttl_live_def MemStore_Delete_def fun_eq_iff)

lemma refines_purge:
  assumes "refines t s m" and "visits_all visit"
  shows "refines (max t now) (purgeExpired visit now s) m"
proof -
  have en: "enumerates (visit (entries s)) (entries s)" using assms by (simp add: refines_def visits_all_def)
  have "live u (purgeExpired visit now s) = live u s" if "now \<le> u" for u
    using that by (auto simp: live_def entries_purge [of visit s, OF en] time_After_def fun_eq_iff split: option.splits)
  moreover have "dom (entries (purgeExpired visit now s)) \<subseteq> dom (entries s)"
    by (auto simp: dom_def entries_purge [of visit s, OF en] split: option.splits if_splits)
  ultimately show ?thesis using assms(1) by (auto simp: refines_def intro: finite_subset)
qed

text \<open>The sweeper as a whole: it returns once the stop channel is closed and chosen, and however many
  ticks it has served the store still refines the same map, from the latest tick on.\<close>

lemma refines_sweep:
  assumes "visits_all visit" and "\<forall>now. TickCase now \<in> set cs \<longrightarrow> now \<le> u"
  shows "refines u s m \<Longrightarrow> refines u (fst (sweep visit cs s)) m"
    and "snd (sweep visit cs s) \<longleftrightarrow> StopCase \<in> set cs"
proof -
  show "refines u s m \<Longrightarrow> refines u (fst (sweep visit cs s)) m"
    using assms
  proof (induction visit cs s rule: sweep.induct)
    case (3 visit now cs s)
    then have "now \<le> u" by auto
    then have "max u now = u" by simp
    then have "refines u (purgeExpired visit now s) m" using refines_purge [OF 3(2,3), of now] by simp
    with 3 show ?case by auto
  qed auto
  show "snd (sweep visit cs s) \<longleftrightarrow> StopCase \<in> set cs"
    by (induction visit cs s rule: sweep.induct) auto
qed

lemma refines_step:
  assumes "refines t s m" and "visits_all visit" and "chronological t (e # es)"
  shows "fst (mem_event visit e s) = fst (spec_event e m)
    \<and> (\<exists>u. refines u (snd (mem_event visit e s)) (snd (spec_event e m)) \<and> chronological u es)"
proof (cases e)
  case (Purge now)
  then show ?thesis using refines_purge [OF assms(1,2)] assms(3) by auto
next
  case (Call c)
  show ?thesis
  proof (cases c)
    case (GetOp now k)
    then show ?thesis
      using Call assms(3) refines_get [OF assms(1), of now k] by (auto simp: split_beta)
  next
    case (SetOp now k r ttl)
    then show ?thesis
      using Call assms(3) refines_set [OF assms(1), of now k r ttl] by auto
  next
    case (DeleteOp k)
    then show ?thesis
      using Call assms(3) refines_delete [OF assms(1), of k] by auto
  qed
qed

interpretation mem_sim: simulation "mem_event visit" spec_event "\<lambda>t s m. visits_all visit \<and> refines t s m" chronological
  for visit
  by unfold_locales (use refines_step in blast)+

section \<open>Properties\<close>

text \<open>C10: \<open>MemStore\<close> implements the specification. On every history of Get, Set and Delete calls,
  interleaved with purges of the sweeper at arbitrary points, whose clock does not run
  backwards, a new store gives exactly the answers of the map that never evicts: eviction is
  invisible, and a zero or negative ttl is 24 hours.\<close>

theorem MemStore_refines_spec:
  assumes "visits_all visit" and "chronological t es"
  shows "answers (mem_event visit) es NewMemStore = answers spec_event es Map.empty"
  by (rule mem_sim.same_answers [OF _ assms(2)])
    (simp add: assms(1) refines_def NewMemStore_def live_def ttl_live_def fun_eq_iff)

theorem MemStore_refines_spec_witness:
  "answers (mem_event (\<lambda>m. SOME kvs. enumerates kvs m))
     [Call (SetOp 0 ''k'' (Some 1) 5), Purge 3, Call (GetOp 5 ''k''), Purge 9, Call (GetOp 9 ''k'')] NewMemStore
   = [None, None, Some (Some 1, True, None), None, Some (None, False, None)]"
proof -
  have "visits_all (\<lambda>m. SOME kvs. enumerates kvs m)"
    unfolding visits_all_def by (intro allI impI someI_ex [OF enumerates_exists])
  from MemStore_refines_spec [OF this, of 0
      "[Call (SetOp 0 ''k'' (Some 1) 5), Purge 3, Call (GetOp 5 ''k''), Purge 9, Call (GetOp 9 ''k'')]"]
  show ?thesis by (simp add: ttl_live_def found_def)
qed

end
