(* ===== verification/Res_Breaker.thy ===== *)
theory Res_Breaker
  imports Go_Base "HOL-Library.Sublist"
begin

text \<open>
  The circuit breaker of \<^verbatim>\<open>src/resilience/resilience.go\<close>. Every method runs under the mutex, so
  a concurrent history is a sequence of whole methods; the reading of the injected clock is
  the argument \<open>now\<close>. The theory has the methods, the counter invariant, an abstract
  automaton that they refine, and what makes the breaker a breaker: it opens exactly on a
  run of failures, rejects until the reset timeout has passed, and recovers.
  \<open>Breaker.Do\<close>, which calls back into its caller, is in \<open>Res_World\<close>.
\<close>

section \<open>The code\<close>

datatype State = StateClosed | StateOpen | StateHalfOpen

fun State_String :: "State \<Rightarrow> string" where
  "State_String StateOpen = ''open''"
| "State_String StateHalfOpen = ''half-open''"
| "State_String StateClosed = ''closed''"

record Breaker =
  failureThreshold :: int
  successThreshold :: int
  resetTimeout :: duration
  bstate :: State
  failures :: int
  successes :: int
  openedAt :: instant

definition NewBreaker :: "int \<Rightarrow> int \<Rightarrow> duration \<Rightarrow> Breaker" where
  "NewBreaker f s r =
     \<lparr>failureThreshold = (if f \<le> 0 then 5 else f),
      successThreshold = (if s \<le> 0 then 1 else s),
      resetTimeout = (if r \<le> 0 then 30 * Second else r),
      bstate = StateClosed, failures = 0, successes = 0, openedAt = zero_Time\<rparr>"

definition maybeHalfOpenLocked :: "instant \<Rightarrow> Breaker \<Rightarrow> Breaker" where
  "maybeHalfOpenLocked now b =
     (if bstate b = StateOpen \<and> resetTimeout b \<le> time_Sub now (openedAt b)
      then b\<lparr>bstate := StateHalfOpen, successes := 0\<rparr> else b)"

definition Breaker_State :: "instant \<Rightarrow> Breaker \<Rightarrow> State \<times> Breaker" where
  "Breaker_State now b = (let b = maybeHalfOpenLocked now b in (bstate b, b))"

definition Breaker_Allow :: "instant \<Rightarrow> Breaker \<Rightarrow> bool \<times> Breaker" where
  "Breaker_Allow now b = (let b = maybeHalfOpenLocked now b in (bstate b \<noteq> StateOpen, b))"

definition trip :: "instant \<Rightarrow> Breaker \<Rightarrow> Breaker" where
  "trip now b = b\<lparr>bstate := StateOpen, openedAt := now, failures := 0\<rparr>"

definition Breaker_Record :: "instant \<Rightarrow> bool \<Rightarrow> Breaker \<Rightarrow> Breaker" where
  "Breaker_Record now success b =
     (if success then
        (let b = b\<lparr>failures := 0\<rparr>
         in if bstate b = StateHalfOpen then
              (let b = b\<lparr>successes := i64 (successes b + 1)\<rparr>
               in if successThreshold b \<le> successes b
                  then b\<lparr>bstate := StateClosed, successes := 0\<rparr> else b)
            else b)
      else
        (let b = b\<lparr>successes := 0\<rparr>
         in if bstate b = StateHalfOpen then trip now b
            else (let b = b\<lparr>failures := i64 (failures b + 1)\<rparr>
                  in if failureThreshold b \<le> failures b then trip now b else b)))"

section \<open>Histories\<close>

datatype breaker_op = StateOp instant | AllowOp instant | RecordOp instant bool

fun breaker_exec :: "breaker_op \<Rightarrow> Breaker \<Rightarrow> Breaker" where
  "breaker_exec (StateOp now) b = snd (Breaker_State now b)"
| "breaker_exec (AllowOp now) b = snd (Breaker_Allow now b)"
| "breaker_exec (RecordOp now ok) b = Breaker_Record now ok b"

definition breaker_new :: "Breaker \<Rightarrow> bool" where
  "breaker_new b \<longleftrightarrow> (\<exists>f s r. is_i64 f \<and> is_i64 s \<and> is_i64 r \<and> b = NewBreaker f s r)"

definition breaker_inv :: "Breaker \<Rightarrow> bool" where
  "breaker_inv b \<longleftrightarrow>
     is_i64 (failureThreshold b) \<and> is_i64 (successThreshold b)
   \<and> 0 < resetTimeout b \<and> resetTimeout b \<le> maxDuration
   \<and> 0 \<le> failures b \<and> failures b < failureThreshold b
   \<and> 0 \<le> successes b \<and> successes b < successThreshold b
   \<and> (bstate b \<noteq> StateHalfOpen \<longrightarrow> successes b = 0)"

section \<open>The abstract circuit\<close>

text \<open>
  What the breaker promises: closed with a count of consecutive failures, open since an
  instant (with a count of the failures of calls that were admitted before it opened), or
  half-open with a count of consecutive successes.
\<close>

datatype circuit = Closed nat | Open instant nat | HalfOpen nat

fun circuit_tick :: "duration \<Rightarrow> instant \<Rightarrow> circuit \<Rightarrow> circuit" where
  "circuit_tick r now (Open t n) = (if t + r \<le> now then HalfOpen 0 else Open t n)"
| "circuit_tick r now c = c"

fun circuit_record :: "nat \<Rightarrow> nat \<Rightarrow> instant \<Rightarrow> bool \<Rightarrow> circuit \<Rightarrow> circuit" where
  "circuit_record f s now True (Closed n) = Closed 0"
| "circuit_record f s now False (Closed n) = (if f \<le> Suc n then Open now 0 else Closed (Suc n))"
| "circuit_record f s now True (Open t n) = Open t 0"
| "circuit_record f s now False (Open t n) = (if f \<le> Suc n then Open now 0 else Open t (Suc n))"
| "circuit_record f s now True (HalfOpen k) = (if s \<le> Suc k then Closed 0 else HalfOpen (Suc k))"
| "circuit_record f s now False (HalfOpen k) = Open now 0"

fun circuit_allows :: "circuit \<Rightarrow> bool" where
  "circuit_allows (Open t n) = False"
| "circuit_allows c = True"

definition circuit_of :: "Breaker \<Rightarrow> circuit" where
  "circuit_of b =
     (case bstate b of
        StateClosed \<Rightarrow> Closed (nat (failures b))
      | StateOpen \<Rightarrow> Open (openedAt b) (nat (failures b))
      | StateHalfOpen \<Rightarrow> HalfOpen (nat (successes b)))"

section \<open>Lemmas\<close>

lemmas breaker_defs [go_state] =
  maybeHalfOpenLocked_def Breaker_State_def Breaker_Allow_def trip_def Breaker_Record_def Let_def

lemma i64_suc: "0 \<le> x \<Longrightarrow> x < y \<Longrightarrow> is_i64 y \<Longrightarrow> i64 (x + 1) = x + 1"
  by (rule i64_id) (simp add: is_i64_def)

lemma breaker_inv_new: "is_i64 f \<Longrightarrow> is_i64 s \<Longrightarrow> is_i64 r \<Longrightarrow> breaker_inv (NewBreaker f s r)"
  by (auto simp: breaker_inv_def NewBreaker_def is_i64_def maxDuration_def Second_def)

lemma breaker_inv_tick: "breaker_inv b \<Longrightarrow> breaker_inv (maybeHalfOpenLocked now b)"
  by (auto simp: breaker_inv_def maybeHalfOpenLocked_def)

lemma breaker_inv_record:
  assumes "breaker_inv b"
  shows "breaker_inv (Breaker_Record now ok b)"
proof -
  have "i64 (failures b + 1) = failures b + 1" and "i64 (successes b + 1) = successes b + 1"
    using assms by (auto simp: breaker_inv_def intro!: i64_suc)
  with assms show ?thesis
    by (cases ok; cases "bstate b") (auto simp: breaker_defs breaker_inv_def)
qed

lemma breaker_inv_exec: "breaker_inv b \<Longrightarrow> breaker_inv (breaker_exec p b)"
  by (cases p) (auto simp: Breaker_State_def Breaker_Allow_def Let_def breaker_inv_tick breaker_inv_record)

interpretation breaker_sys: op_system breaker_new breaker_exec breaker_inv
  by unfold_locales (auto simp: breaker_new_def breaker_inv_new breaker_inv_exec)

lemma thresholds_frame [simp]:
  "failureThreshold (maybeHalfOpenLocked now b) = failureThreshold b"
  "successThreshold (maybeHalfOpenLocked now b) = successThreshold b"
  "resetTimeout (maybeHalfOpenLocked now b) = resetTimeout b"
  "failureThreshold (Breaker_Record now ok b) = failureThreshold b"
  "successThreshold (Breaker_Record now ok b) = successThreshold b"
  "resetTimeout (Breaker_Record now ok b) = resetTimeout b"
  by (simp_all add: breaker_defs)

lemma refine_tick:
  assumes "breaker_inv b"
  shows "circuit_of (maybeHalfOpenLocked now b) = circuit_tick (resetTimeout b) now (circuit_of b)"
proof -
  have "resetTimeout b \<le> time_Sub now (openedAt b) \<longleftrightarrow> openedAt b + resetTimeout b \<le> now"
    using assms by (intro time_Sub_ge_iff) (auto simp: breaker_inv_def)
  then show ?thesis
    by (cases "bstate b") (auto simp: maybeHalfOpenLocked_def circuit_of_def)
qed

lemma refine_record:
  assumes "breaker_inv b"
  shows "circuit_of (Breaker_Record now ok b) =
    circuit_record (nat (failureThreshold b)) (nat (successThreshold b)) now ok (circuit_of b)"
proof -
  have "i64 (failures b + 1) = failures b + 1" and "i64 (successes b + 1) = successes b + 1"
    using assms by (auto simp: breaker_inv_def intro!: i64_suc)
  with assms show ?thesis
    by (cases ok; cases "bstate b")
      (auto simp: breaker_defs breaker_inv_def circuit_of_def nat_add_distrib)
qed

lemma circuit_allows_of: "circuit_allows (circuit_of b) \<longleftrightarrow> bstate b \<noteq> StateOpen"
  by (cases "bstate b") (auto simp: circuit_of_def)

lemma circuit_of_new: "circuit_of (NewBreaker f s r) = Closed 0"
  by (simp add: circuit_of_def NewBreaker_def)

text \<open>
  A run of recorded outcomes on a closed circuit: it opens exactly when \<open>f\<close> failures in a row
  occur, and otherwise counts the failures at the end of the run.
\<close>

definition record_run :: "(instant \<times> bool) list \<Rightarrow> Breaker \<Rightarrow> Breaker" where
  "record_run os b = fold (\<lambda>(t, ok). Breaker_Record t ok) os b"

definition trailing_failures :: "bool list \<Rightarrow> nat" where
  "trailing_failures os = length (takeWhile Not (rev os))"

lemma trailing_snoc [simp]:
  "trailing_failures (os @ [True]) = 0"
  "trailing_failures (os @ [False]) = Suc (trailing_failures os)"
  by (simp_all add: trailing_failures_def)

lemma suffix_failures: "suffix (replicate n False) os \<longleftrightarrow> n \<le> trailing_failures os"
proof (induction os arbitrary: n rule: rev_induct)
  case Nil
  then show ?case by (cases n) (auto simp: trailing_failures_def)
next
  case (snoc x os)
  show ?case
  proof (cases n)
    case (Suc m)
    have "replicate (Suc m) False = replicate m False @ [False]" by (simp add: replicate_append_same)
    then show ?thesis using snoc Suc by (cases x) auto
  qed simp
qed

lemma sublist_failures_snoc:
  "sublist (replicate n False) (os @ [x]) \<longleftrightarrow>
     n \<le> trailing_failures (os @ [x]) \<or> sublist (replicate n False) os"
  by (simp only: sublist_snoc suffix_failures)

lemma circuit_opens_on_run:
  assumes "0 < f"
  shows "if sublist (replicate f False) (map snd os)
    then \<exists>t n. fold (\<lambda>(t, ok). circuit_record f s t ok) os (Closed 0) = Open t n
    else fold (\<lambda>(t, ok). circuit_record f s t ok) os (Closed 0)
           = Closed (trailing_failures (map snd os)) \<and> trailing_failures (map snd os) < f"
proof (induction os rule: rev_induct)
  case Nil
  then show ?case using assms by (cases f) (auto simp: trailing_failures_def)
next
  case (snoc o' os)
  obtain t ok where o': "o' = (t, ok)" by fastforce
  show ?case
  proof (cases "sublist (replicate f False) (map snd os)")
    case True
    with snoc obtain u n where "fold (\<lambda>(t, ok). circuit_record f s t ok) os (Closed 0) = Open u n"
      by auto
    with True show ?thesis by (cases ok) (auto simp: o' sublist_failures_snoc)
  next
    case False
    with snoc assms show ?thesis by (cases ok) (auto simp: o' sublist_failures_snoc)
  qed
qed

lemma refine_record_run:
  assumes "breaker_inv b"
  shows "breaker_inv (record_run os b)
    \<and> circuit_of (record_run os b) =
        fold (\<lambda>(t, ok). circuit_record (nat (failureThreshold b)) (nat (successThreshold b)) t ok) os
          (circuit_of b)"
  using assms
proof (induction os arbitrary: b)
  case (Cons o' os)
  obtain t ok where o': "o' = (t, ok)" by fastforce
  from Cons.prems have "breaker_inv (Breaker_Record t ok b)" by (rule breaker_inv_record)
  from Cons.IH [OF this] Cons.prems show ?case
    by (simp add: o' record_run_def refine_record)
qed (simp add: record_run_def)

lemma half_open_successes:
  assumes "Suc k + length ts = s"
  shows "fold (\<lambda>t. circuit_record f s t True) (t0 # ts) (HalfOpen k) = Closed 0"
  using assms by (induction ts arbitrary: k t0) auto

lemma refine_successes:
  assumes "breaker_inv b"
  shows "circuit_of (fold (\<lambda>t. Breaker_Record t True) ts b) =
    fold (\<lambda>t. circuit_record (nat (failureThreshold b)) (nat (successThreshold b)) t True) ts (circuit_of b)"
proof -
  have "record_run (map (\<lambda>t. (t, True)) ts) b = fold (\<lambda>t. Breaker_Record t True) ts b"
    by (simp add: record_run_def fold_map comp_def)
  with refine_record_run [OF assms, of "map (\<lambda>t. (t, True)) ts"] show ?thesis
    by (simp add: fold_map comp_def)
qed

section \<open>Properties\<close>

text \<open>C18: after any history of \<open>State\<close>, \<open>Allow\<close> and \<open>Record\<close> calls on a breaker built by
  \<open>NewBreaker\<close>, both counters stay between zero and their thresholds (so the increments never
  overflow a 64-bit int), and the success counter is zero outside the half-open state.\<close>

theorem breaker_counters_bounded:
  assumes "is_i64 f" and "is_i64 s" and "is_i64 r"
  defines "b \<equiv> NewBreaker f s r"
  shows "0 \<le> failures (fold breaker_exec ops b)
    \<and> failures (fold breaker_exec ops b) < failureThreshold (fold breaker_exec ops b)
    \<and> 0 \<le> successes (fold breaker_exec ops b)
    \<and> successes (fold breaker_exec ops b) < successThreshold (fold breaker_exec ops b)
    \<and> (bstate (fold breaker_exec ops b) \<noteq> StateHalfOpen \<longrightarrow> successes (fold breaker_exec ops b) = 0)"
proof -
  have "breaker_inv (fold breaker_exec ops b)"
    using assms by (intro breaker_sys.op_run) (auto simp: breaker_new_def)
  then show ?thesis by (simp add: breaker_inv_def)
qed

theorem breaker_counters_bounded_witness:
  "failures (fold breaker_exec [RecordOp 1 False, AllowOp 2, RecordOp 3 False] (NewBreaker 3 2 60))
   < failureThreshold (fold breaker_exec [RecordOp 1 False, AllowOp 2, RecordOp 3 False] (NewBreaker 3 2 60))"
  using breaker_counters_bounded [of 3 2 60 "[RecordOp 1 False, AllowOp 2, RecordOp 3 False]"]
  by (simp only: is_i64_def) simp

text \<open>C1: the breaker refines the abstract circuit: under the invariant, \<open>Allow\<close> answers as the
  circuit does after its clock transition, and \<open>Record\<close> is the circuit's transition on the
  outcome, for every state, outcome and time.\<close>

theorem breaker_refines_circuit:
  assumes "breaker_inv b"
  shows "circuit_of (snd (Breaker_Allow now b)) = circuit_tick (resetTimeout b) now (circuit_of b)
    \<and> fst (Breaker_Allow now b) = circuit_allows (circuit_tick (resetTimeout b) now (circuit_of b))
    \<and> circuit_of (Breaker_Record now ok b) =
        circuit_record (nat (failureThreshold b)) (nat (successThreshold b)) now ok (circuit_of b)"
  using refine_tick [OF assms, of now] refine_record [OF assms, of now ok]
    circuit_allows_of [of "maybeHalfOpenLocked now b"]
  by (simp add: Breaker_Allow_def Let_def)

theorem breaker_refines_circuit_witness:
  "circuit_of (Breaker_Record 7 False (NewBreaker 1 1 60)) =
     circuit_record 1 1 7 False (circuit_of (NewBreaker 1 1 60))"
proof -
  have "breaker_inv (NewBreaker 1 1 60)" by (rule breaker_inv_new) (simp_all add: is_i64_def)
  from breaker_refines_circuit [OF this, of 7 False] show ?thesis
    by (simp add: NewBreaker_def)
qed

text \<open>C2: a new breaker opens exactly on a run of consecutive failures: after any sequence of
  recorded outcomes it is open if and only if somewhere in the sequence as many failures as
  its threshold followed each other with no success in between.\<close>

theorem breaker_opens_iff_run:
  assumes "is_i64 f" and "0 < f" and "is_i64 s" and "is_i64 r"
  shows "bstate (record_run os (NewBreaker f s r)) = StateOpen
    \<longleftrightarrow> sublist (replicate (nat f) False) (map snd os)"
proof -
  let ?b = "NewBreaker f s r"
  have inv: "breaker_inv ?b" using assms by (intro breaker_inv_new)
  have f: "nat (failureThreshold ?b) = nat f" using assms by (simp add: NewBreaker_def)
  from refine_record_run [OF inv, of os]
  have "circuit_of (record_run os ?b) =
      fold (\<lambda>(t, ok). circuit_record (nat f) (nat (successThreshold ?b)) t ok) os (Closed 0)"
    by (simp add: f circuit_of_new)
  moreover have "bstate (record_run os ?b) = StateOpen \<longleftrightarrow> \<not> circuit_allows (circuit_of (record_run os ?b))"
    by (simp add: circuit_allows_of)
  ultimately show ?thesis
    using circuit_opens_on_run [of "nat f" os "nat (successThreshold ?b)"] assms(2)
    by (auto split: if_splits)
qed

theorem breaker_opens_iff_run_witness:
  "bstate (record_run [(1, False), (2, True), (3, False), (4, False)] (NewBreaker 2 1 60)) = StateOpen"
  using breaker_opens_iff_run [of 2 1 60 "[(1, False), (2, True), (3, False), (4, False)]"]
  by (simp add: is_i64_def eval_nat_numeral sublist_Cons_right)

text \<open>An open breaker rejects every call until the reset timeout has passed since it opened
  and changes nothing by rejecting; from that instant on it admits calls.\<close>

lemma breaker_open_rejects_until_reset:
  assumes "breaker_inv b" and "bstate b = StateOpen"
  shows "(now < openedAt b + resetTimeout b \<longrightarrow> Breaker_Allow now b = (False, b))
    \<and> (openedAt b + resetTimeout b \<le> now \<longrightarrow>
         Breaker_Allow now b = (True, b\<lparr>bstate := StateHalfOpen, successes := 0\<rparr>))"
proof -
  have "resetTimeout b \<le> time_Sub now (openedAt b) \<longleftrightarrow> openedAt b + resetTimeout b \<le> now"
    using assms by (intro time_Sub_ge_iff) (auto simp: breaker_inv_def)
  with assms(2) show ?thesis by (auto simp: Breaker_Allow_def maybeHalfOpenLocked_def Let_def)
qed

text \<open>C16: recovery: once the reset timeout has passed, an admitted call followed by as many
  recorded successes as the success threshold closes the breaker with a clean failure count,
  while a single failure in the half-open state opens it again from that instant.\<close>

theorem breaker_recovers:
  assumes "breaker_inv b" and "bstate b = StateOpen"
    and "openedAt b + resetTimeout b \<le> now" and "length ts = nat (successThreshold b)"
  shows "circuit_of (fold (\<lambda>t. Breaker_Record t True) ts (snd (Breaker_Allow now b))) = Closed 0
    \<and> circuit_of (Breaker_Record t' False (snd (Breaker_Allow now b))) = Open t' 0"
proof -
  let ?b = "maybeHalfOpenLocked now b"
  have inv: "breaker_inv ?b" using assms(1) by (rule breaker_inv_tick)
  have allow: "snd (Breaker_Allow now b) = ?b" by (simp add: Breaker_Allow_def Let_def)
  have half: "circuit_of ?b = HalfOpen 0"
    using refine_tick [OF assms(1), of now] assms(2,3) by (simp add: circuit_of_def)
  have "0 < successThreshold b" using assms(1) by (auto simp: breaker_inv_def)
  then obtain t ts' where ts: "ts = t # ts'" using assms(4) by (cases ts) auto
  have "Suc 0 + length ts' = nat (successThreshold b)" using assms(4) ts by simp
  from half_open_successes [OF this] have "circuit_of (fold (\<lambda>t. Breaker_Record t True) ts ?b) = Closed 0"
    using refine_successes [OF inv, of ts] by (simp add: half ts)
  moreover have "circuit_of (Breaker_Record t' False ?b) = Open t' 0"
    using refine_record [OF inv, of t' False] by (simp add: half)
  ultimately show ?thesis by (simp add: allow)
qed

theorem breaker_recovers_witness:
  "circuit_of (fold (\<lambda>t. Breaker_Record t True) [61, 62]
     (snd (Breaker_Allow 60 (Breaker_Record 0 False (NewBreaker 1 2 60))))) = Closed 0"
proof -
  let ?b = "Breaker_Record 0 False (NewBreaker 1 2 60)"
  have "breaker_inv ?b"
    by (intro breaker_inv_record breaker_inv_new) (simp_all add: is_i64_def)
  moreover have "bstate ?b = StateOpen" and "openedAt ?b + resetTimeout ?b = 60"
    and "nat (successThreshold ?b) = length [61, 62 :: int]"
    by (simp_all add: breaker_defs NewBreaker_def i64_def)
  ultimately show ?thesis using breaker_recovers [of ?b 60 "[61, 62]" 0] by simp
qed

text \<open>The half-open state does not limit its trial calls: however often \<open>Allow\<close> is called
  while the breaker is half-open, at whatever times and before any outcome is recorded, every
  call is admitted and the breaker stays as it was.\<close>

lemma half_open_admits_all:
  assumes "bstate b = StateHalfOpen"
  shows "fold (\<lambda>now b. snd (Breaker_Allow now b)) nows b = b \<and> fst (Breaker_Allow now b)"
proof
  have "snd (Breaker_Allow t b) = b" for t
    using assms by (simp add: Breaker_Allow_def maybeHalfOpenLocked_def)
  then show "fold (\<lambda>now b. snd (Breaker_Allow now b)) nows b = b"
    by (induction nows) auto
  show "fst (Breaker_Allow now b)"
    using assms by (simp add: Breaker_Allow_def maybeHalfOpenLocked_def Let_def)
qed

end
