(* ===== verification/Res_Bulkhead.thy ===== *)
theory Res_Bulkhead
  imports Go_Base
begin

text \<open>
  The bulkhead of \<^verbatim>\<open>src/resilience/resilience.go\<close>: a buffered channel used as a counting
  semaphore. Here it is used by any number of goroutines at once: a step relation with one
  rule per channel operation of \<open>Bulkhead.Do\<close>, over the semaphore and the goroutines'
  positions in that method. The call of one goroutine as a whole, which \<open>Guard.Do\<close> composes
  with, is in \<open>Res_World\<close>.
\<close>

section \<open>The semaphore\<close>

record Bulkhead =
  sem_cap :: nat
  sem_len :: nat

definition NewBulkhead :: "int \<Rightarrow> Bulkhead" where
  "NewBulkhead m = \<lparr>sem_cap = nat (if m \<le> 0 then 1 else m), sem_len = 0\<rparr>"

definition sem_send :: "Bulkhead \<Rightarrow> Bulkhead option" where
  "sem_send b = (if sem_len b < sem_cap b then Some (b\<lparr>sem_len := Suc (sem_len b)\<rparr>) else None)"

definition sem_receive :: "Bulkhead \<Rightarrow> Bulkhead option" where
  "sem_receive b = (if 0 < sem_len b then Some (b\<lparr>sem_len := sem_len b - 1\<rparr>) else None)"

section \<open>Goroutines in Bulkhead.Do\<close>

text \<open>
  \<open>Selecting\<close>: in the select; \<open>Running\<close>: in \<open>fn\<close>, with a slot; \<open>Releasing\<close>: \<open>fn\<close> has returned
  or panicked and the deferred receive is due; \<open>Rejected\<close>: returned \<open>ctx.Err()\<close>.
\<close>

datatype bpc = Outside | Selecting | Running | Releasing | Rejected

record bsys =
  bulkhead :: Bulkhead
  bpcs :: "nat \<Rightarrow> bpc"
  cancelled :: "nat \<Rightarrow> bool"

definition bmove :: "bsys \<Rightarrow> nat \<Rightarrow> bpc \<Rightarrow> bsys" where
  "bmove s i p = s\<lparr>bpcs := (bpcs s)(i := p)\<rparr>"

inductive bulkhead_step :: "bsys \<Rightarrow> bsys \<Rightarrow> bool" where
  call: "bpcs s i = Outside \<or> bpcs s i = Rejected \<Longrightarrow> bulkhead_step s (bmove s i Selecting)"
| acquire: "bpcs s i = Selecting \<Longrightarrow> sem_send (bulkhead s) = Some b \<Longrightarrow>
    bulkhead_step s (bmove (s\<lparr>bulkhead := b\<rparr>) i Running)"
| reject: "bpcs s i = Selecting \<Longrightarrow> cancelled s i \<Longrightarrow> bulkhead_step s (bmove s i Rejected)"
| fn_ends: "bpcs s i = Running \<Longrightarrow> bulkhead_step s (bmove s i Releasing)"
| release: "bpcs s i = Releasing \<Longrightarrow> sem_receive (bulkhead s) = Some b \<Longrightarrow>
    bulkhead_step s (bmove (s\<lparr>bulkhead := b\<rparr>) i Outside)"
| cancel: "bulkhead_step s (s\<lparr>cancelled := (cancelled s)(i := True)\<rparr>)"

inductive_cases bulkhead_stepE: "bulkhead_step s t"

definition bulkhead_start :: "bsys \<Rightarrow> bool" where
  "bulkhead_start s \<longleftrightarrow> (\<exists>m. bulkhead s = NewBulkhead m) \<and> (\<forall>i. bpcs s i = Outside)"

definition holders :: "bsys \<Rightarrow> nat set" where
  "holders s = {i. bpcs s i = Running \<or> bpcs s i = Releasing}"

definition bulkhead_inv :: "bsys \<Rightarrow> bool" where
  "bulkhead_inv s \<longleftrightarrow>
     finite (holders s) \<and> card (holders s) = sem_len (bulkhead s)
   \<and> sem_len (bulkhead s) \<le> sem_cap (bulkhead s) \<and> 0 < sem_cap (bulkhead s)"

section \<open>Lemmas\<close>

lemma bmove_simps [simp]:
  "bulkhead (bmove s i p) = bulkhead s" "cancelled (bmove s i p) = cancelled s"
  "bpcs (bmove s i p) = (bpcs s)(i := p)"
  by (simp_all add: bmove_def)

lemma holders_in:
  "p = Running \<or> p = Releasing \<Longrightarrow> holders (bmove s i p) = insert i (holders s)"
  by (auto simp: holders_def)

lemma holders_out:
  "p \<noteq> Running \<Longrightarrow> p \<noteq> Releasing \<Longrightarrow> holders (bmove s i p) = holders s - {i}"
  by (auto simp: holders_def)

lemma holders_frame [simp]:
  "holders (s\<lparr>bulkhead := b\<rparr>) = holders s" "holders (s\<lparr>cancelled := c\<rparr>) = holders s"
  by (simp_all add: holders_def)

lemma holders_pc: "i \<in> holders s \<longleftrightarrow> bpcs s i = Running \<or> bpcs s i = Releasing"
  by (simp add: holders_def)

lemma bulkhead_inv_start: "bulkhead_start s \<Longrightarrow> bulkhead_inv s"
  by (auto simp: bulkhead_start_def bulkhead_inv_def holders_def NewBulkhead_def)

lemma bulkhead_inv_step: "bulkhead_step s t \<Longrightarrow> bulkhead_inv s \<Longrightarrow> bulkhead_inv t"
proof (induction rule: bulkhead_step.induct)
  case (acquire s i b)
  then show ?case
    by (auto simp: bulkhead_inv_def holders_in holders_pc sem_send_def split: if_splits)
next
  case (release s i b)
  then show ?case
    by (auto simp: bulkhead_inv_def holders_out holders_pc sem_receive_def split: if_splits)
next
  case (fn_ends s i)
  then show ?case by (simp add: bulkhead_inv_def holders_in holders_pc insert_absorb)
qed (auto simp: bulkhead_inv_def holders_out holders_pc)

interpretation bulkhead_sys: step_system bulkhead_start bulkhead_step bulkhead_inv
  by unfold_locales (auto intro: bulkhead_inv_start bulkhead_inv_step)

lemma sem_cap_step: "bulkhead_step s t \<Longrightarrow> sem_cap (bulkhead t) = sem_cap (bulkhead s)"
  by (induction rule: bulkhead_step.induct)
    (auto simp: sem_send_def sem_receive_def split: if_splits)

lemma sem_cap_steps: "bulkhead_step\<^sup>*\<^sup>* s t \<Longrightarrow> sem_cap (bulkhead t) = sem_cap (bulkhead s)"
  by (induction rule: rtranclp_induct) (auto dest: sem_cap_step)

section \<open>Properties\<close>

text \<open>C6: a bulkhead built with \<open>NewBulkhead(max)\<close> never has more than \<open>max\<close> calls of \<open>fn\<close> in
  flight (1 for a non-positive \<open>max\<close>), under every interleaving of any number of goroutines,
  cancellations and panics; the slots taken are exactly the calls in flight.\<close>

theorem bulkhead_bounds_concurrency:
  assumes "bulkhead s = NewBulkhead m" and "\<forall>i. bpcs s i = Outside" and "bulkhead_step\<^sup>*\<^sup>* s t"
  shows "finite {i. bpcs t i = Running}
    \<and> card {i. bpcs t i = Running} \<le> nat (if m \<le> 0 then 1 else m)
    \<and> sem_len (bulkhead t) = card (holders t)"
proof -
  have "bulkhead_start s" using assms by (auto simp: bulkhead_start_def)
  then have inv: "bulkhead_inv t" using assms(3) by (rule bulkhead_sys.inv_reachable)
  have cap: "sem_cap (bulkhead t) = nat (if m \<le> 0 then 1 else m)"
    using sem_cap_steps [OF assms(3)] assms(1) by (simp add: NewBulkhead_def)
  have sub: "{i. bpcs t i = Running} \<subseteq> holders t" by (auto simp: holders_pc)
  have fin: "finite (holders t)" using inv by (simp add: bulkhead_inv_def)
  have "finite {i. bpcs t i = Running}" and "card {i. bpcs t i = Running} \<le> card (holders t)"
    using finite_subset [OF sub fin] card_mono [OF fin sub] by simp_all
  with inv cap show ?thesis by (simp add: bulkhead_inv_def)
qed

theorem bulkhead_bounds_concurrency_witness:
  "\<exists>t :: bsys. card {i. bpcs t i = Running} \<le> 2 \<and> bpcs t 5 = Running"
proof -
  let ?s = "\<lparr>bulkhead = NewBulkhead 2, bpcs = (\<lambda>_. Outside), cancelled = (\<lambda>_. False)\<rparr> :: bsys"
  let ?t = "bmove (bmove ?s 5 Selecting \<lparr>bulkhead := \<lparr>sem_cap = 2, sem_len = 1\<rparr>\<rparr>) 5 Running"
  have "bulkhead_step ?s (bmove ?s 5 Selecting)" by (rule bulkhead_step.call) simp
  moreover have "bulkhead_step (bmove ?s 5 Selecting) ?t"
    by (rule bulkhead_step.acquire) (simp_all add: sem_send_def NewBulkhead_def)
  ultimately have "bulkhead_step\<^sup>*\<^sup>* ?s ?t" by (meson converse_rtranclp_into_rtranclp r_into_rtranclp)
  then have "card {i. bpcs ?t i = Running} \<le> 2"
    using bulkhead_bounds_concurrency [of ?s 2 ?t] by simp
  then show ?thesis by (intro exI [of _ ?t]) simp
qed

text \<open>C25: no slot leaks and nothing deadlocks: in every reachable state a goroutine in the select
  can acquire a slot at once, or some goroutine that holds one can take its next step (finish
  its call or release); a release is never blocked.\<close>

theorem bulkhead_no_deadlock:
  assumes "bulkhead_start s" and "bulkhead_step\<^sup>*\<^sup>* s t"
  shows "(bpcs t i = Selecting \<longrightarrow>
      (\<exists>b. sem_send (bulkhead t) = Some b) \<or> (\<exists>j \<in> holders t. \<exists>u. bulkhead_step t u \<and> bpcs u j \<noteq> bpcs t j))
    \<and> (bpcs t i = Releasing \<longrightarrow> (\<exists>b. sem_receive (bulkhead t) = Some b))"
proof -
  have inv: "bulkhead_inv t" using assms by (rule bulkhead_sys.inv_reachable)
  have recv: "\<exists>b. sem_receive (bulkhead t) = Some b" if "j \<in> holders t" for j
    using inv that card_gt_0_iff [of "holders t"] by (auto simp: bulkhead_inv_def sem_receive_def)
  have step: "\<exists>u. bulkhead_step t u \<and> bpcs u j \<noteq> bpcs t j" if h: "j \<in> holders t" for j
  proof (cases "bpcs t j = Running")
    case True
    then show ?thesis using bulkhead_step.fn_ends [of t j] by (auto intro!: exI [of _ "bmove t j Releasing"])
  next
    case False
    with that have "bpcs t j = Releasing" by (simp add: holders_pc)
    moreover obtain b where "sem_receive (bulkhead t) = Some b" using recv [OF h] by blast
    ultimately show ?thesis
      using bulkhead_step.release [of t j b]
      by (auto intro!: exI [of _ "bmove (t\<lparr>bulkhead := b\<rparr>) j Outside"])
  qed
  have "holders t \<noteq> {}" if "sem_send (bulkhead t) = None"
    using inv that by (auto simp: bulkhead_inv_def sem_send_def split: if_splits)
  with step recv show ?thesis by (cases "sem_send (bulkhead t)") (auto simp: holders_pc)
qed

theorem bulkhead_no_deadlock_witness:
  "\<exists>t :: bsys. bpcs t 5 = Selecting \<and> ((\<exists>b. sem_send (bulkhead t) = Some b)
     \<or> (\<exists>j \<in> holders t. \<exists>u. bulkhead_step t u \<and> bpcs u j \<noteq> bpcs t j))"
proof -
  let ?s = "\<lparr>bulkhead = NewBulkhead 2, bpcs = (\<lambda>_. Outside), cancelled = (\<lambda>_. False)\<rparr> :: bsys"
  have "bulkhead_start ?s" by (auto simp: bulkhead_start_def)
  moreover have "bulkhead_step\<^sup>*\<^sup>* ?s (bmove ?s 5 Selecting)"
    by (rule r_into_rtranclp) (rule bulkhead_step.call, simp)
  ultimately show ?thesis
    using bulkhead_no_deadlock [of ?s "bmove ?s 5 Selecting" 5]
    by (intro exI [of _ "bmove ?s 5 Selecting"]) simp
qed

end
