(* ===== verification/Go_Float.thy ===== *)
theory Go_Float
  imports Go_Base Complex_Main
begin

text \<open>
  The \<open>float64\<close> arithmetic the retry policy uses: IEEE 754 binary64 with round to nearest,
  ties to even. A finite value is the rational it denotes; \<open>rnd\<close> rounds a rational to 53
  significant bits (fewer below the normal range), and an operation rounds its exact result
  once, with overflow to an infinity. The sign of a zero cannot be observed by the operations
  the package uses (\<open>+\<close>, \<open>-\<close>, \<open>*\<close>, comparison, conversion to an integer), so there is one zero.
  Each operation is rounded on its own, as on amd64; a compiler for an architecture with a
  fused multiply-add may round less often.

  What the package needs of rounding is the locale \<open>rounding\<close>: it is monotone and it keeps
  the numbers that are already representable.
\<close>

section \<open>Rounding\<close>

fun bit_len :: "nat \<Rightarrow> nat" where
  "bit_len n = (if n = 0 then 0 else Suc (bit_len (n div 2)))"

declare bit_len.simps [simp del]

definition ilog :: "rat \<Rightarrow> int" where
  "ilog x =
     (let (p, q) = quotient_of x; k = int (bit_len (nat p)) - int (bit_len (nat q))
      in if 2 powi k \<le> x then k else k - 1)"

definition half_even :: "rat \<Rightarrow> int" where
  "half_even y =
     (let f = \<lfloor>y\<rfloor>; d = y - of_int f
      in if d < 1 / 2 then f else if 1 / 2 < d then f + 1 else if even f then f else f + 1)"

definition ulp_exp :: "rat \<Rightarrow> int" where
  "ulp_exp x = max (- 1074) (ilog \<bar>x\<bar> - 52)"

definition rnd :: "rat \<Rightarrow> rat" where
  "rnd x = (if x = 0 then 0 else of_int (half_even (x / 2 powi ulp_exp x)) * 2 powi ulp_exp x)"

section \<open>Values and operations\<close>

datatype f64 = Fin rat | PInf | NInf | NaN

definition to_f64 :: "rat \<Rightarrow> f64" where
  "to_f64 x = (if 2 ^ 1024 \<le> rnd x then PInf else if rnd x \<le> - (2 ^ 1024) then NInf else Fin (rnd x))"

fun f_sign :: "f64 \<Rightarrow> rat" where
  "f_sign (Fin a) = sgn a"
| "f_sign PInf = 1"
| "f_sign NInf = - 1"
| "f_sign NaN = 0"

definition inf_of :: "rat \<Rightarrow> f64" where
  "inf_of s = (if 0 < s then PInf else if s < 0 then NInf else NaN)"

fun f_mul :: "f64 \<Rightarrow> f64 \<Rightarrow> f64" where
  "f_mul (Fin a) (Fin b) = to_f64 (a * b)"
| "f_mul x y = inf_of (f_sign x * f_sign y)"

fun f_sub :: "f64 \<Rightarrow> f64 \<Rightarrow> f64" where
  "f_sub (Fin a) (Fin b) = to_f64 (a - b)"
| "f_sub NaN y = NaN"
| "f_sub x NaN = NaN"
| "f_sub (Fin a) y = inf_of (- f_sign y)"
| "f_sub x (Fin b) = x"
| "f_sub PInf NInf = PInf"
| "f_sub NInf PInf = NInf"
| "f_sub x y = NaN"

fun f_less :: "f64 \<Rightarrow> f64 \<Rightarrow> bool" where
  "f_less (Fin a) (Fin b) = (a < b)"
| "f_less NaN y = False"
| "f_less x NaN = False"
| "f_less PInf y = False"
| "f_less x NInf = False"
| "f_less x y = True"

definition f_of_int :: "int \<Rightarrow> f64" where
  "f_of_int n = to_f64 (of_int n)"

text \<open>
  Conversion to a 64-bit integer truncates; the language leaves the result to the
  implementation when the truncated value does not fit, which is the parameter \<open>oob\<close>.
\<close>

definition f_to_i64 :: "(f64 \<Rightarrow> int) \<Rightarrow> f64 \<Rightarrow> int" where
  "f_to_i64 oob x =
     (case x of
        Fin a \<Rightarrow> (let n = (if 0 \<le> a then \<lfloor>a\<rfloor> else \<lceil>a\<rceil>) in if is_i64 n then n else i64 (oob x))
      | _ \<Rightarrow> i64 (oob x))"

section \<open>The interface of rounding\<close>

locale rounding =
  fixes r :: "rat \<Rightarrow> rat"
  assumes r_mono: "0 \<le> x \<Longrightarrow> x \<le> y \<Longrightarrow> r x \<le> r y"
    and r_idem: "0 \<le> x \<Longrightarrow> r (r x) = r x"
    and r_int: "0 \<le> n \<Longrightarrow> n \<le> 2 ^ 53 \<Longrightarrow> r (of_int n) = of_int n"
begin

lemma r_zero [simp]: "r 0 = 0"
  using r_int [of 0] by simp

lemma r_one [simp]: "r 1 = 1"
  using r_int [of 1] by simp

lemma r_nonneg: "0 \<le> x \<Longrightarrow> 0 \<le> r x"
  using r_mono [of 0 x] by simp

lemma r_below: "0 \<le> x \<Longrightarrow> x \<le> y \<Longrightarrow> r y = y \<Longrightarrow> r x \<le> y"
  using r_mono [of x y] by simp

text \<open>
  A jittered delay: with a representable delay \<open>d\<close>, a fraction \<open>f\<close> between 0 and 1 and a
  random number \<open>u\<close> between 0 and 1, the rounded computation stays between its value at
  \<open>u = 0\<close> and \<open>d\<close>.
\<close>

lemma jitter_band:
  assumes "0 \<le> d" and "r d = d" and "0 \<le> f" and "f \<le> 1" and "0 \<le> u" and "u \<le> 1"
  defines "sp \<equiv> r (d * f)"
  shows "0 \<le> sp" and "sp \<le> d"
    and "0 \<le> r (sp * r (1 - u))" and "r (sp * r (1 - u)) \<le> sp"
    and "r (d - sp) \<le> r (d - r (sp * r (1 - u)))" and "r (d - r (sp * r (1 - u))) \<le> d"
proof -
  have df: "0 \<le> d * f" "d * f \<le> d" using assms by (simp_all add: mult_left_le)
  show s0: "0 \<le> sp" unfolding sp_def using df by (rule_tac r_nonneg) simp
  show sd: "sp \<le> d" unfolding sp_def using df assms(2) by (intro r_below)
  have om: "0 \<le> r (1 - u)" "r (1 - u) \<le> 1" using assms by (auto intro: r_nonneg r_below)
  have p: "0 \<le> sp * r (1 - u)" "sp * r (1 - u) \<le> sp"
    using s0 om by (simp_all add: mult_left_le)
  show p0: "0 \<le> r (sp * r (1 - u))" using p(1) by (rule r_nonneg)
  have "r sp = sp" unfolding sp_def using df(1) by (rule r_idem)
  with p show ps: "r (sp * r (1 - u)) \<le> sp" by (intro r_below)
  show "r (d - sp) \<le> r (d - r (sp * r (1 - u)))" using ps sd by (intro r_mono) simp_all
  show "r (d - r (sp * r (1 - u))) \<le> d" using p0 ps sd assms(2) by (intro r_below) simp_all
qed

end

section \<open>Round to nearest even is a rounding\<close>

lemma bit_len_bounds: "0 < n \<Longrightarrow> 2 ^ (bit_len n - 1) \<le> n \<and> n < 2 ^ bit_len n"
proof (induction n rule: bit_len.induct)
  case (1 n)
  show ?case
  proof (cases "n = 1")
    case True
    then show ?thesis by (simp add: bit_len.simps)
  next
    case False
    with 1 have IH: "2 ^ (bit_len (n div 2) - 1) \<le> n div 2" "n div 2 < 2 ^ bit_len (n div 2)"
      and pos: "0 < n div 2" by auto
    obtain m where m: "bit_len (n div 2) = Suc m"
      using pos by (cases "bit_len (n div 2)") (auto simp: bit_len.simps [of "n div 2"])
    have "bit_len n = Suc (Suc m)" using 1 m by (simp add: bit_len.simps [of n])
    with IH m show ?thesis by simp linarith
  qed
qed

lemma powi_add_one: "(2::rat) powi (k + 1) = 2 * 2 powi k"
  by (simp add: power_int_add)

lemma powi_shift: "(2::rat) powi j * 2 powi k = 2 powi (j + k)"
  by (simp add: power_int_add)

lemma powi_pos [simp]: "0 < (2::rat) powi k"
  by simp

lemma powi_mono: "j \<le> k \<Longrightarrow> (2::rat) powi j \<le> 2 powi k"
  by (rule power_int_increasing) auto

lemma powi_less_D: "(2::rat) powi j < 2 powi k \<Longrightarrow> j < k"
  using powi_mono [of k j] by (meson leD not_le)

lemma bit_len_powi:
  assumes "0 < (p::int)"
  shows "(2::rat) powi (int (bit_len (nat p)) - 1) \<le> of_int p"
    and "of_int p < (2::rat) powi int (bit_len (nat p))"
proof -
  let ?b = "bit_len (nat p)"
  have b: "2 ^ (?b - 1) \<le> nat p" "nat p < 2 ^ ?b" using bit_len_bounds [of "nat p"] assms by auto
  have "0 < ?b" using assms by (simp add: bit_len.simps)
  then have eq: "int ?b - 1 = int (?b - 1)" by simp
  have "(2::int) ^ (?b - 1) \<le> p" and "p < 2 ^ ?b"
    using b assms by (simp_all add: nat_less_iff le_nat_iff)
  then have "of_int (2 ^ (?b - 1)) \<le> (of_int p :: rat)" and "of_int p < (of_int (2 ^ ?b) :: rat)"
    by (simp_all only: of_int_le_iff of_int_less_iff)
  then have "(2::rat) ^ (?b - 1) \<le> of_int p" and "of_int p < (2::rat) ^ ?b"
    by simp_all
  then show "(2::rat) powi (int ?b - 1) \<le> of_int p" and "of_int p < (2::rat) powi int ?b"
    unfolding eq power_int_of_nat by blast+
qed

lemma ilog_bounds:
  assumes "0 < x"
  shows "2 powi ilog x \<le> x" and "x < 2 powi (ilog x + 1)"
proof -
  obtain p q where pq: "quotient_of x = (p, q)" by fastforce
  have q: "0 < q" using pq by (rule quotient_of_denom_pos)
  have x: "x = of_int p / of_int q" using pq by (rule quotient_of_div)
  have p: "0 < p" using assms q x by (simp add: zero_less_divide_iff)
  define k where "k = int (bit_len (nat p)) - int (bit_len (nat q))"
  note P = bit_len_powi [OF p] and Q = bit_len_powi [OF q]
  have up: "x < 2 powi (k + 1)"
  proof -
    have "of_int p < (2::rat) powi (k + 1) * 2 powi (int (bit_len (nat q)) - 1)"
      using P(2) powi_shift [of "k + 1" "int (bit_len (nat q)) - 1"] by (simp add: k_def)
    also have "\<dots> \<le> 2 powi (k + 1) * of_int q" using Q(1) by (intro mult_left_mono) auto
    finally show ?thesis using q by (simp add: x divide_less_eq)
  qed
  have lo: "2 powi (k - 1) \<le> x"
  proof -
    have "(2::rat) powi (k - 1) * of_int q \<le> 2 powi (k - 1) * 2 powi int (bit_len (nat q))"
      using Q(2) by (intro mult_left_mono) auto
    also have "\<dots> \<le> of_int p" using P(1) by (simp only: powi_shift) (simp add: k_def)
    finally show ?thesis using q by (simp add: x le_divide_eq)
  qed
  show "2 powi ilog x \<le> x" and "x < 2 powi (ilog x + 1)"
    using up lo by (auto simp: ilog_def pq k_def Let_def)
qed

lemma ilog_eqI:
  assumes "2 powi k \<le> x" and "x < 2 powi (k + 1)"
  shows "ilog x = k"
proof -
  have x: "0 < x" using assms(1) powi_pos [of k] by linarith
  note b = ilog_bounds [OF x]
  have "(2::rat) powi k < 2 powi (ilog x + 1)" and "(2::rat) powi ilog x < 2 powi (k + 1)"
    using b assms by linarith+
  then show ?thesis by (auto dest!: powi_less_D)
qed

lemma ilog_mono: "0 < x \<Longrightarrow> x \<le> y \<Longrightarrow> ilog x \<le> ilog y"
proof -
  assume "0 < x" and "x \<le> y"
  then have "(2::rat) powi ilog x < 2 powi (ilog y + 1)"
    using ilog_bounds [of x] ilog_bounds [of y] by linarith
  then show ?thesis by (auto dest!: powi_less_D)
qed

lemma half_even_int [simp]: "half_even (of_int n) = n"
  by (simp add: half_even_def)

lemma half_even_bounds: "\<lfloor>y\<rfloor> \<le> half_even y" "half_even y \<le> \<lfloor>y\<rfloor> + 1"
  by (simp_all add: half_even_def Let_def)

lemma half_even_mono:
  assumes "x \<le> y"
  shows "half_even x \<le> half_even y"
proof (cases "\<lfloor>x\<rfloor> = \<lfloor>y\<rfloor>")
  case True
  then show ?thesis using assms by (auto simp: half_even_def Let_def)
next
  case False
  then have "\<lfloor>x\<rfloor> + 1 \<le> \<lfloor>y\<rfloor>" using floor_mono [OF assms] by linarith
  then show ?thesis using half_even_bounds(2) [of x] half_even_bounds(1) [of y] by linarith
qed

lemma half_even_le: "x \<le> of_int n \<Longrightarrow> half_even x \<le> n"
  using half_even_mono [of x "of_int n"] by simp

lemma half_even_ge: "of_int n \<le> x \<Longrightarrow> n \<le> half_even x"
  using half_even_mono [of "of_int n" x] by simp

text \<open>The scaled significand of a positive number has at most 53 bits.\<close>

lemma ulp_exp_pos: "0 < x \<Longrightarrow> ulp_exp x = max (- 1074) (ilog x - 52)"
  by (simp add: ulp_exp_def)

lemma scaled_less:
  assumes "0 < x"
  shows "x / 2 powi ulp_exp x < 2 ^ 53"
proof -
  have "ilog x + 1 \<le> ulp_exp x + 53" using assms by (simp add: ulp_exp_pos)
  then have "x < 2 powi (ulp_exp x + 53)"
    using ilog_bounds(2) [OF assms] powi_mono by (meson order_less_le_trans)
  also have "\<dots> = 2 ^ 53 * 2 powi ulp_exp x"
    by (simp add: power_int_add)
  finally show ?thesis by (simp add: divide_less_eq)
qed

lemma rnd_eq:
  assumes "0 < x"
  obtains m where "rnd x = of_int m * 2 powi ulp_exp x" and "0 \<le> m" and "m \<le> 2 ^ 53"
    and "m = half_even (x / 2 powi ulp_exp x)"
proof -
  let ?y = "x / 2 powi ulp_exp x"
  have "0 \<le> half_even ?y" using assms by (intro half_even_ge) simp
  moreover have "half_even ?y \<le> 2 ^ 53"
    using scaled_less [OF assms] by (intro half_even_le) simp
  ultimately show ?thesis using that assms by (auto simp: rnd_def)
qed

text \<open>Numbers with at most 53 significant bits on the grid are kept.\<close>

lemma rnd_exact:
  assumes "0 \<le> m" and "m \<le> 2 ^ 53" and "- 1074 \<le> e"
  shows "rnd (of_int m * 2 powi e) = of_int m * 2 powi e"
proof (cases "m = 0")
  case True
  then show ?thesis by (simp add: rnd_def)
next
  case False
  let ?z = "of_int m * 2 powi e :: rat" and ?e = "ulp_exp (of_int m * 2 powi e)"
  have pos: "0 < ?z" using False assms(1) by simp
  have "\<exists>k. ?z / 2 powi ?e = of_int k"
  proof (cases "?e \<le> e")
    case True
    then have "?z / 2 powi ?e = of_int m * 2 powi (e - ?e)" by (simp add: power_int_diff)
    also have "\<dots> = of_int (m * 2 ^ nat (e - ?e))" using True by (simp add: power_int_def)
    finally show ?thesis by blast
  next
    case False
    then have "e + 53 \<le> ilog ?z" using assms(3) by (simp add: ulp_exp_pos [OF pos] max_def split: if_splits)
    then have "2 powi (e + 53) \<le> ?z" using ilog_bounds(1) [OF pos] powi_mono by (meson order_trans)
    then have "2 ^ 53 * 2 powi e \<le> ?z" by (simp add: power_int_add)
    then have "2 ^ 53 \<le> (of_int m :: rat)" using powi_pos [of e] by (simp only: mult_le_cancel_right_pos)
    then have "2 ^ 53 \<le> m" by (simp add: of_int_le_iff [symmetric] del: of_int_le_iff)
    with assms(2) have z: "?z = 2 powi (e + 53)" by (simp add: power_int_add)
    then have "ilog ?z = e + 53" by (simp only: z) (rule ilog_eqI, simp_all add: power_int_add)
    then have "?e = e + 1" using assms(3) by (simp add: ulp_exp_pos [OF pos])
    then have "?z / 2 powi ?e = of_int (2 ^ 52)" unfolding z by (simp add: power_int_add)
    then show ?thesis by blast
  qed
  then obtain k where k: "?z / 2 powi ?e = of_int k" by blast
  then have "?z = of_int k * 2 powi ?e" by (simp add: divide_eq_eq)
  then show ?thesis using False k by (simp add: rnd_def)
qed

lemma rnd_mono_pos:
  assumes "0 < x" and "x \<le> y"
  shows "rnd x \<le> rnd y"
proof -
  have y: "0 < y" using assms by simp
  obtain m where m: "rnd x = of_int m * 2 powi ulp_exp x" "m \<le> 2 ^ 53"
    "m = half_even (x / 2 powi ulp_exp x)" using rnd_eq [OF assms(1)] by metis
  obtain n where n: "rnd y = of_int n * 2 powi ulp_exp y" "n = half_even (y / 2 powi ulp_exp y)"
    using rnd_eq [OF y] by metis
  have "ulp_exp x \<le> ulp_exp y"
    using ilog_mono [OF assms] by (simp add: ulp_exp_pos assms(1) y max_def)
  then consider "ulp_exp x = ulp_exp y" | "ulp_exp x + 1 \<le> ulp_exp y" by linarith
  then show ?thesis
  proof cases
    case 1
    then have "m \<le> n" unfolding m(3) n(2) using assms(2)
      by (intro half_even_mono) (simp add: divide_right_mono)
    then show ?thesis using 1 by (simp add: m(1) n(1))
  next
    case 2
    moreover have "- 1074 \<le> ulp_exp x" by (simp add: ulp_exp_def)
    ultimately have "ulp_exp y = ilog y - 52" using y by (simp add: ulp_exp_pos max_def split: if_splits)
    then have "2 powi (ulp_exp y + 52) \<le> y" using ilog_bounds(1) [OF y] by simp
    then have "of_int (2 ^ 52) \<le> y / 2 powi ulp_exp y" by (simp add: power_int_add le_divide_eq mult.commute)
    then have "2 ^ 52 \<le> n" unfolding n(2) by (rule half_even_ge)
    then have "of_int (2 ^ 52) * 2 powi ulp_exp y \<le> rnd y"
      unfolding n(1) by (intro mult_right_mono) (simp_all only: of_int_le_iff, simp)
    moreover have "rnd x \<le> of_int (2 ^ 53) * 2 powi ulp_exp x"
      unfolding m(1) using m(2) by (intro mult_right_mono) (simp_all only: of_int_le_iff, simp)
    moreover have "of_int (2 ^ 53) * (2::rat) powi ulp_exp x = of_int (2 ^ 52) * 2 powi (ulp_exp x + 1)"
      by (simp add: power_int_add)
    moreover have "\<dots> \<le> of_int (2 ^ 52) * 2 powi ulp_exp y"
      using powi_mono [OF 2] by (intro mult_left_mono) simp_all
    ultimately show ?thesis by linarith
  qed
qed

lemma rnd_nonneg: "0 \<le> x \<Longrightarrow> 0 \<le> rnd x"
  by (cases "x = 0") (auto simp: rnd_def intro!: mult_nonneg_nonneg half_even_ge)

interpretation f64r: rounding rnd
proof unfold_locales
  show "rnd x \<le> rnd y" if "0 \<le> x" and "x \<le> y" for x y
    using that rnd_mono_pos [of x y] rnd_nonneg [of y] by (cases "x = 0") (auto simp: rnd_def [of 0])
  show "rnd (rnd x) = rnd x" if "0 \<le> x" for x
  proof (cases "x = 0")
    case False
    with that obtain m where "rnd x = of_int m * 2 powi ulp_exp x" "0 \<le> m" "m \<le> 2 ^ 53"
      using rnd_eq [of x] by (metis order_le_less)
    then show ?thesis using rnd_exact [of m "ulp_exp x"] by (simp add: ulp_exp_def)
  qed (simp add: rnd_def)
  show "rnd (of_int n) = of_int n" if "0 \<le> n" and "n \<le> 2 ^ 53" for n
    using rnd_exact [of n 0] that by simp
qed

section \<open>Small numbers\<close>

lemma half_even_error: "\<bar>of_int (half_even y) - y\<bar> \<le> 1 / 2"
proof -
  have "of_int \<lfloor>y\<rfloor> \<le> y" and "y < of_int \<lfloor>y\<rfloor> + 1" by linarith+
  then show ?thesis by (auto simp: half_even_def Let_def)
qed

lemma rnd_error:
  assumes "0 \<le> x" and "x \<le> 2 ^ 53"
  shows "\<bar>rnd x - x\<bar> \<le> 1 / 2"
proof (cases "x = 0 \<or> x = 2 ^ 53")
  case True
  then show ?thesis using f64r.r_int [of "2 ^ 53"] by auto
next
  case False
  then have pos: "0 < x" and "x < 2 powi 53" using assms by auto
  then have "(2::rat) powi ilog x < 2 powi 53" using ilog_bounds(1) [OF pos] by linarith
  then have "ilog x < 53" by (rule powi_less_D)
  then have "ulp_exp x \<le> 0" by (simp add: ulp_exp_pos [OF pos])
  then have scale: "(2::rat) powi ulp_exp x \<le> 1" using powi_mono [of "ulp_exp x" 0] by simp
  let ?y = "x / 2 powi ulp_exp x"
  have "rnd x - x = (of_int (half_even ?y) - ?y) * 2 powi ulp_exp x"
    using pos by (simp add: rnd_def left_diff_distrib)
  then have "\<bar>rnd x - x\<bar> = \<bar>of_int (half_even ?y) - ?y\<bar> * 2 powi ulp_exp x"
    by (simp add: abs_mult)
  also have "\<dots> \<le> 1 / 2 * 1"
    using half_even_error [of ?y] scale by (intro mult_mono) auto
  finally show ?thesis by simp
qed

lemma rnd_error_bounds:
  assumes "0 \<le> x" and "x \<le> 2 ^ 53"
  shows "rnd x \<le> x + 1 / 2" and "x - 1 / 2 \<le> rnd x"
  using rnd_error [OF assms] unfolding abs_le_iff by linarith+

lemma rnd_small: "0 \<le> x \<Longrightarrow> x \<le> 2 ^ 53 \<Longrightarrow> 0 \<le> rnd x \<and> rnd x \<le> 2 ^ 53"
  using f64r.r_nonneg [of x] f64r.r_below [of x "2 ^ 53"] f64r.r_int [of "2 ^ 53"] by simp

lemma to_f64_small: "0 \<le> x \<Longrightarrow> x \<le> 2 ^ 53 \<Longrightarrow> to_f64 x = Fin (rnd x)"
proof -
  assume "0 \<le> x" and "x \<le> 2 ^ 53"
  then have "0 \<le> rnd x" and "rnd x \<le> 2 ^ 53" using rnd_small by auto
  moreover have "(2::rat) ^ 53 < 2 ^ 1024" by (rule power_strict_increasing) simp_all
  ultimately have "\<not> 2 ^ 1024 \<le> rnd x" and "\<not> rnd x \<le> - (2 ^ 1024)" by linarith+
  then show ?thesis by (simp only: to_f64_def if_False)
qed

lemma f_of_int_small: "0 \<le> n \<Longrightarrow> n \<le> 2 ^ 53 \<Longrightarrow> f_of_int n = Fin (of_int n)"
  unfolding f_of_int_def
  by (subst to_f64_small) (auto simp: f64r.r_int of_int_le_numeral_power_cancel_iff)

lemma f_to_i64_small:
  assumes "0 \<le> a" and "a \<le> 2 ^ 53"
  shows "f_to_i64 oob (Fin a) = \<lfloor>a\<rfloor>"
proof -
  have "0 \<le> \<lfloor>a\<rfloor>" and "\<lfloor>a\<rfloor> \<le> 2 ^ 53" using assms by (simp_all add: floor_le_iff)
  then show ?thesis using assms by (simp add: f_to_i64_def is_i64_def)
qed

text \<open>The computation of a jittered delay, in floats and back.\<close>

lemma jittered_value:
  assumes d: "0 \<le> d" "d \<le> 2 ^ 53" and f: "0 \<le> f" "f \<le> 1" and u: "0 \<le> u" "u \<le> 1"
    and wait_def: "wait = f_to_i64 oob (f_sub (f_of_int d) (f_mul (f_mul (f_of_int d) (Fin f)) (f_sub (Fin 1) (Fin u))))"
  shows "0 \<le> wait" and "wait \<le> d" and "of_int d * (1 - f) - 2 < (of_int wait :: rat)"
proof -
  let ?d = "of_int d :: rat"
  define sp where "sp = rnd (?d * f)"
  define q where "q = rnd (sp * rnd (1 - u))"
  have d': "0 \<le> ?d" "?d \<le> 2 ^ 53" using d by (simp_all add: of_int_le_numeral_power_cancel_iff)
  note band = f64r.jitter_band [OF d'(1) f64r.r_int [OF d] f u, folded sp_def, folded q_def]
  have df: "0 \<le> ?d * f" "?d * f \<le> ?d" using d' f by (simp_all add: mult_left_le)
  have "f_mul (f_of_int d) (Fin f) = Fin sp"
    using df d' by (simp add: f_of_int_small [OF d] to_f64_small sp_def)
  moreover have "f_sub (Fin 1) (Fin u) = Fin (rnd (1 - u))"
    using u by (simp add: to_f64_small)
  moreover have om: "0 \<le> rnd (1 - u)" "rnd (1 - u) \<le> 1"
    using u f64r.r_nonneg [of "1 - u"] f64r.r_below [of "1 - u" 1] by auto
  have "0 \<le> sp * rnd (1 - u)" and "sp * rnd (1 - u) \<le> 2 ^ 53"
    using band(1,2) om d' mult_left_le [OF om(2) band(1)] by (auto simp: mult.commute)
  then have "f_mul (Fin sp) (Fin (rnd (1 - u))) = Fin q"
    by (simp add: to_f64_small q_def)
  moreover have "f_sub (f_of_int d) (Fin q) = Fin (rnd (?d - q))"
    using band d' by (simp add: f_of_int_small [OF d] to_f64_small)
  ultimately have "wait = f_to_i64 oob (Fin (rnd (?d - q)))"
    by (simp add: wait_def)
  moreover have r: "0 \<le> rnd (?d - q)" using band by (intro f64r.r_nonneg) linarith
  ultimately have wait: "wait = \<lfloor>rnd (?d - q)\<rfloor>"
    using band(6) d' by (simp add: f_to_i64_small)
  show "0 \<le> wait" using r by (simp add: wait)
  show "wait \<le> d" using band(6) by (simp add: wait floor_le_iff)
  have "sp \<le> ?d * f + 1 / 2"
    unfolding sp_def using df d' by (intro rnd_error_bounds) linarith+
  moreover have "?d - sp - 1 / 2 \<le> rnd (?d - sp)"
    using band(1,2) d' by (intro rnd_error_bounds) linarith+
  moreover have "rnd (?d - sp) < of_int wait + 1"
    using band(5) unfolding wait by linarith
  ultimately show "?d * (1 - f) - 2 < of_int wait" by (simp add: right_diff_distrib)
qed

end
