(* ===== verification/Res_World.thy ===== *)
theory Res_World
  imports Res_Breaker Res_Bulkhead Go_Float
begin

text \<open>
  The world in which the resilience primitives of \<^verbatim>\<open>src/resilience/resilience.go\<close> call back into
  their caller: the clock, the breakers and bulkheads behind pointers, and whatever else the
  program has (the record is extensible, and \<open>fn\<close> may change any of it, the shared primitives
  included, which is also how other goroutines show up during a call). A call is an action
  that returns, panics or stays blocked. What the Go runtime decides is the record \<open>runtime\<close>:
  which ready case a select takes, the numbers of the shared random source, the result of a
  float conversion that does not fit, and what happens while a goroutine waits for a slot.
\<close>

section \<open>World, context and runtime\<close>

record world =
  now_at :: instant
  breakers :: "addr \<Rightarrow> Breaker"
  bulkheads :: "addr \<Rightarrow> Bulkhead"

record 'w runtime =
  rt_pick :: "'w \<Rightarrow> bool"
  rt_float64 :: "'w \<Rightarrow> f64 \<times> 'w"
  rt_oob :: "f64 \<Rightarrow> int"
  rt_wait :: "go_context \<Rightarrow> addr \<Rightarrow> 'w \<Rightarrow> 'w option"

definition ctx_done :: "go_context \<Rightarrow> instant \<Rightarrow> bool" where
  "ctx_done ctx t \<longleftrightarrow> (case done_at ctx of None \<Rightarrow> False | Some d \<Rightarrow> d \<le> t)"

definition ErrOpen :: goerror where
  "ErrOpen = Foreign 0 ''resilience: circuit breaker open'' None []"

section \<open>Breaker.Do\<close>

definition on_breaker :: "addr \<Rightarrow> (Breaker \<Rightarrow> 'r \<times> Breaker) \<Rightarrow> 'a world_scheme \<Rightarrow> 'r \<times> 'a world_scheme" where
  "on_breaker p f w =
     (let (r, b) = f (breakers w p) in (r, w\<lparr>breakers := (breakers w)(p := b)\<rparr>))"

definition Breaker_Do :: "addr \<Rightarrow> 'a world_scheme action \<Rightarrow> 'a world_scheme action" where
  "Breaker_Do p fn w =
     (let (ok, w1) = on_breaker p (Breaker_Allow (now_at w)) w
      in if \<not> ok then (Returns (Some ErrOpen), w1)
         else case fn w1 of
                (Returns err, w2) \<Rightarrow>
                  (Returns err,
                   snd (on_breaker p (\<lambda>b. ((), Breaker_Record (now_at w2) (err = None) b)) w2))
              | (r, w2) \<Rightarrow> (r, w2))"

section \<open>Bulkhead.Do\<close>

text \<open>
  The select takes a ready case, and when both are ready the runtime picks one. When none is, the
  call waits while the rest of the program runs, until a slot is free or the context is done; the
  world at that moment is \<open>rt_wait\<close> of the runtime, and \<open>None\<close> there is a wait without end. The
  deferred receive runs whether \<open>fn\<close> returns or panics.
\<close>

definition select_ready :: "go_context \<Rightarrow> addr \<Rightarrow> 'a world_scheme \<Rightarrow> bool" where
  "select_ready ctx p w \<longleftrightarrow> sem_send (bulkheads w p) \<noteq> None \<or> ctx_done ctx (now_at w)"

definition select_resumes ::
  "'a world_scheme runtime \<Rightarrow> go_context \<Rightarrow> addr \<Rightarrow> 'a world_scheme \<Rightarrow> 'a world_scheme option" where
  "select_resumes rt ctx p w = (if select_ready ctx p w then Some w else rt_wait rt ctx p w)"

definition Bulkhead_Do ::
  "'a world_scheme runtime \<Rightarrow> go_context \<Rightarrow> addr \<Rightarrow> 'a world_scheme action \<Rightarrow> 'a world_scheme action" where
  "Bulkhead_Do rt ctx p fn w =
     (case select_resumes rt ctx p w of
        None \<Rightarrow> (Blocks, w)
      | Some w1 \<Rightarrow>
          (let enter = (\<lambda>b.
                 case fn (w1\<lparr>bulkheads := (bulkheads w1)(p := b)\<rparr>) of
                   (Blocks, w2) \<Rightarrow> (Blocks, w2)
                 | (r, w2) \<Rightarrow>
                     (case sem_receive (bulkheads w2 p) of
                        Some b' \<Rightarrow> (r, w2\<lparr>bulkheads := (bulkheads w2)(p := b')\<rparr>)
                      | None \<Rightarrow> (Blocks, w2)));
               cancel = (Returns (Some (ctx_err ctx)), w1)
           in case sem_send (bulkheads w1 p) of
                Some b \<Rightarrow> if ctx_done ctx (now_at w1) \<and> \<not> rt_pick rt w1 then cancel else enter b
              | None \<Rightarrow> cancel))"

text \<open>
  What the language promises of the wait: it ends with a ready case, not before it began and no
  later than the context is done; so it can only go on for ever under a context without an end.
\<close>

definition wakes :: "'a world_scheme runtime \<Rightarrow> bool" where
  "wakes rt \<longleftrightarrow> (\<forall>ctx p w.
     case rt_wait rt ctx p w of
       None \<Rightarrow> done_at ctx = None
     | Some w1 \<Rightarrow> select_ready ctx p w1 \<and> now_at w \<le> now_at w1
         \<and> (\<forall>t. done_at ctx = Some t \<longrightarrow> now_at w1 \<le> max t (now_at w)))"

section \<open>sleepCtx\<close>

text \<open>
  The timer fires when the delay has passed (at once for a delay that is not positive), the
  context's channel closes when it is done; the call resumes at the first of the two, and the
  runtime picks when they coincide. The clock is ideal: nothing is lost to scheduling.
\<close>

definition sleepCtx ::
  "'a world_scheme runtime \<Rightarrow> go_context \<Rightarrow> duration \<Rightarrow> 'a world_scheme \<Rightarrow> goerror option \<times> 'a world_scheme" where
  "sleepCtx rt ctx d w =
     (let fire = now_at w + max 0 d
      in case done_at ctx of
           None \<Rightarrow> (None, w\<lparr>now_at := fire\<rparr>)
         | Some t \<Rightarrow>
             (let t = max t (now_at w)
              in if fire < t \<or> fire = t \<and> rt_pick rt w then (None, w\<lparr>now_at := fire\<rparr>)
                 else (Some (ctx_err ctx), w\<lparr>now_at := t\<rparr>)))"

section \<open>Lemmas\<close>

lemma on_breaker_fst: "fst (on_breaker p f w) = fst (f (breakers w p))"
  by (simp add: on_breaker_def split_beta Let_def)

lemma Breaker_Allow_open:
  assumes "breaker_inv b" and "bstate b = StateOpen" and "now < openedAt b + resetTimeout b"
  shows "Breaker_Allow now b = (False, b)"
  using breaker_open_rejects_until_reset [OF assms(1,2)] assms(3) by blast

lemma Breaker_Do_open:
  assumes "breaker_inv (breakers w p)" and "bstate (breakers w p) = StateOpen"
    and "now_at w < openedAt (breakers w p) + resetTimeout (breakers w p)"
  shows "Breaker_Do p fn w = (Returns (Some ErrOpen), w)"
  using Breaker_Allow_open [OF assms] by (simp add: Breaker_Do_def on_breaker_def)

lemma Breaker_Do_admitted:
  assumes "fst (Breaker_Allow (now_at w) (breakers w p))"
  defines "w1 \<equiv> w\<lparr>breakers := (breakers w)(p := snd (Breaker_Allow (now_at w) (breakers w p)))\<rparr>"
  shows "Breaker_Do p fn w =
    (case fn w1 of
       (Returns err, w2) \<Rightarrow>
         (Returns err, w2\<lparr>breakers := (breakers w2)(p := Breaker_Record (now_at w2) (err = None) (breakers w2 p))\<rparr>)
     | (r, w2) \<Rightarrow> (r, w2))"
  using assms
  by (auto simp: Breaker_Do_def on_breaker_def split_beta Let_def split: prod.splits outcome.splits)

lemma send_receive: "sem_send b = Some b' \<Longrightarrow> sem_receive b' = Some b"
  by (auto simp: sem_send_def sem_receive_def split: if_splits)

text \<open>The world in which the select resumes.\<close>

lemma select_resumes_None:
  assumes "wakes rt" and "select_resumes rt ctx p w = None"
  shows "sem_send (bulkheads w p) = None \<and> done_at ctx = None"
  using assms(2) spec [OF spec [OF spec [OF assms(1) [unfolded wakes_def], of ctx], of p], of w]
  by (auto simp: select_resumes_def select_ready_def split: if_splits)

lemma select_resumes_Some:
  assumes "wakes rt" and "select_resumes rt ctx p w = Some w1"
  shows "select_ready ctx p w1 \<and> now_at w \<le> now_at w1
    \<and> (\<forall>t. done_at ctx = Some t \<longrightarrow> now_at w1 \<le> max t (now_at w))"
  using assms(2) spec [OF spec [OF spec [OF assms(1) [unfolded wakes_def], of ctx], of p], of w]
  by (auto simp: select_resumes_def split: if_splits)

lemma cancelled_at:
  assumes "wakes rt" and "select_resumes rt ctx p w = Some w1" and "sem_send (bulkheads w1 p) = None"
  shows "\<exists>t. done_at ctx = Some t \<and> now_at w1 = max t (now_at w)"
  using select_resumes_Some [OF assms(1,2)] assms(3)
  by (auto simp: select_ready_def ctx_done_def split: option.splits)

text \<open>\<open>Bulkhead.Do\<close> gives its slot back: if \<open>fn\<close> returns or panics and leaves the slots as
  it found them, the semaphore after the call is the one in which the select resumed.\<close>

lemma Bulkhead_Do_keeps_slot:
  assumes "\<forall>v. fst (fn v) \<noteq> Blocks \<and> bulkheads (snd (fn v)) p = bulkheads v p"
    and "select_resumes rt ctx p w = Some w1"
  shows "fst (Bulkhead_Do rt ctx p fn w) \<noteq> Blocks
    \<and> bulkheads (snd (Bulkhead_Do rt ctx p fn w)) p = bulkheads w1 p
    \<and> (sem_send (bulkheads w1 p) = None \<longrightarrow> Bulkhead_Do rt ctx p fn w = (Returns (Some (ctx_err ctx)), w1))
    \<and> (sem_send (bulkheads w1 p) \<noteq> None \<and> \<not> ctx_done ctx (now_at w1) \<longrightarrow>
         fst (Bulkhead_Do rt ctx p fn w) =
           fst (fn (w1\<lparr>bulkheads := (bulkheads w1)(p := the (sem_send (bulkheads w1 p)))\<rparr>)))"
proof (cases "sem_send (bulkheads w1 p)")
  case None
  then show ?thesis by (simp add: Bulkhead_Do_def Let_def assms(2))
next
  case (Some b)
  let ?w = "w1\<lparr>bulkheads := (bulkheads w1)(p := b)\<rparr>"
  obtain r w2 where fn: "fn ?w = (r, w2)" by fastforce
  have "r \<noteq> Blocks" and "bulkheads w2 p = b" using assms spec [OF assms(1), of ?w] fn by auto
  with Some fn send_receive [OF Some] show ?thesis
    by (auto simp: Bulkhead_Do_def Let_def assms(2) split: outcome.splits)
qed

lemma Bulkhead_Do_free:
  assumes "sem_send (bulkheads w p) = Some b" and "\<not> ctx_done ctx (now_at w)"
    and "fn (w\<lparr>bulkheads := (bulkheads w)(p := b)\<rparr>) = (r, w2)" and "r \<noteq> Blocks" and "bulkheads w2 p = b"
  shows "Bulkhead_Do rt ctx p fn w = (r, w2\<lparr>bulkheads := (bulkheads w2)(p := bulkheads w p)\<rparr>)"
  using assms send_receive [OF assms(1)]
  by (simp add: Bulkhead_Do_def select_resumes_def select_ready_def Let_def split: outcome.splits)

section \<open>Properties\<close>

text \<open>C24: \<open>Breaker.Do\<close> on an open breaker whose reset timeout has not passed returns \<open>ErrOpen\<close>
  and leaves the whole world as it was, so \<open>fn\<close> was not called. Otherwise it calls \<open>fn\<close> once
  and passes its result on; a returned result is recorded (nil as a success, any error as a
  failure), while a panic of \<open>fn\<close> goes through with nothing recorded.\<close>

theorem Breaker_Do_behaviour:
  assumes "breaker_inv (breakers w p)"
  defines "b \<equiv> breakers w p"
  defines "w1 \<equiv> w\<lparr>breakers := (breakers w)(p := maybeHalfOpenLocked (now_at w) b)\<rparr>"
  shows "if bstate b = StateOpen \<and> now_at w < openedAt b + resetTimeout b
    then Breaker_Do p fn w = (Returns (Some ErrOpen), w)
    else fst (Breaker_Do p fn w) = fst (fn w1)
      \<and> (\<forall>err w2. fn w1 = (Returns err, w2) \<longrightarrow>
           breakers (snd (Breaker_Do p fn w)) p = Breaker_Record (now_at w2) (err = None) (breakers w2 p))
      \<and> (\<forall>v w2. fn w1 = (Panics v, w2) \<longrightarrow> snd (Breaker_Do p fn w) = w2)"
proof (cases "bstate b = StateOpen \<and> now_at w < openedAt b + resetTimeout b")
  case True
  then show ?thesis using Breaker_Do_open [of w p fn] assms(1) by (simp add: b_def)
next
  case False
  have "fst (Breaker_Allow (now_at w) b)"
    using False refine_tick [of b "now_at w"] assms(1)
      circuit_allows_of [of "maybeHalfOpenLocked (now_at w) b"]
    by (cases "bstate b") (auto simp: b_def Breaker_Allow_def Let_def circuit_of_def split: if_splits)
  moreover have "snd (Breaker_Allow (now_at w) b) = maybeHalfOpenLocked (now_at w) b"
    by (simp add: Breaker_Allow_def Let_def)
  ultimately have "Breaker_Do p fn w =
    (case fn w1 of
       (Returns err, w2) \<Rightarrow>
         (Returns err, w2\<lparr>breakers := (breakers w2)(p := Breaker_Record (now_at w2) (err = None) (breakers w2 p))\<rparr>)
     | (r, w2) \<Rightarrow> (r, w2))"
    using Breaker_Do_admitted [of w p fn] by (simp add: b_def w1_def)
  with False show ?thesis by (auto split: prod.splits outcome.splits)
qed

theorem Breaker_Do_behaviour_witness:
  "Breaker_Do 3 (\<lambda>w. (Panics ''boom'', w))
     \<lparr>now_at = 7, breakers = (\<lambda>_. Breaker_Record 0 False (NewBreaker 1 1 60)), bulkheads = (\<lambda>_. NewBulkhead 1)\<rparr>
   = (Returns (Some ErrOpen),
      \<lparr>now_at = 7, breakers = (\<lambda>_. Breaker_Record 0 False (NewBreaker 1 1 60)), bulkheads = (\<lambda>_. NewBulkhead 1)\<rparr>)"
proof -
  let ?b = "Breaker_Record 0 False (NewBreaker 1 1 60)"
  let ?w = "\<lparr>now_at = 7, breakers = (\<lambda>_. ?b), bulkheads = (\<lambda>_. NewBulkhead 1)\<rparr> :: world"
  have "breaker_inv ?b"
    by (intro breaker_inv_record breaker_inv_new) (simp_all add: is_i64_def)
  moreover have "bstate ?b = StateOpen" and "openedAt ?b + resetTimeout ?b = 60"
    by (simp_all add: breaker_defs NewBreaker_def i64_def)
  ultimately show ?thesis using Breaker_Do_behaviour [of ?w 3 "\<lambda>w. (Panics ''boom'', w)"] by simp
qed

text \<open>\<open>sleepCtx\<close> returns nil only after the whole delay and no later than the context is
  done, and the context's error only once the context is done and no later than the delay
  ends; it always returns, and without a deadline it is a plain sleep.\<close>

lemma sleepCtx_respects_context:
  "(fst (sleepCtx rt ctx d w) = None \<longrightarrow>
      now_at (snd (sleepCtx rt ctx d w)) = now_at w + max 0 d
      \<and> (\<forall>t. done_at ctx = Some t \<longrightarrow> now_at w + max 0 d \<le> max t (now_at w)))
   \<and> (fst (sleepCtx rt ctx d w) \<noteq> None \<longrightarrow>
      fst (sleepCtx rt ctx d w) = Some (ctx_err ctx)
      \<and> ctx_done ctx (now_at (snd (sleepCtx rt ctx d w)))
      \<and> now_at (snd (sleepCtx rt ctx d w)) \<le> now_at w + max 0 d)
   \<and> (done_at ctx = None \<longrightarrow> fst (sleepCtx rt ctx d w) = None)"
  by (auto simp: sleepCtx_def Let_def ctx_done_def split: option.splits)

end
