(* ===== verification/Res_Retry.thy ===== *)
theory Res_Retry
  imports Res_World
begin

text \<open>
  The retry policy of \<^verbatim>\<open>src/resilience/resilience.go\<close>: the attempt loop, the growth of the delay
  in 64-bit integers and floats, and the jitter. The callbacks of a policy (\<open>Retryable\<close>,
  \<open>sleep\<close>, \<open>rng\<close>) and the call \<open>fn\<close> are functions of the world.
\<close>

section \<open>The code\<close>

record 'w RetryPolicy =
  MaxAttempts :: int
  Base :: duration
  Max :: duration
  Multiplier :: f64
  Jitter :: f64
  Retryable :: "(goerror \<Rightarrow> 'w \<Rightarrow> bool \<times> 'w) option"
  sleep :: "(go_context \<Rightarrow> duration \<Rightarrow> 'w \<Rightarrow> goerror option \<times> 'w) option"
  rng :: "('w \<Rightarrow> f64 \<times> 'w) option"

type_synonym 'w sleeper = "go_context \<Rightarrow> duration \<Rightarrow> 'w \<Rightarrow> goerror option \<times> 'w"

definition rng_of :: "'w runtime \<Rightarrow> 'w RetryPolicy \<Rightarrow> 'w \<Rightarrow> f64 \<times> 'w" where
  "rng_of rt p = (case rng p of None \<Rightarrow> rt_float64 rt | Some r \<Rightarrow> r)"

definition applyJitter :: "'w runtime \<Rightarrow> 'w RetryPolicy \<Rightarrow> duration \<Rightarrow> 'w \<Rightarrow> duration \<times> 'w" where
  "applyJitter rt p d w =
     (let frac = (if f_less (Fin 1) (Jitter p) then Fin 1 else Jitter p);
          spread = f_mul (f_of_int d) frac;
          (u, w1) = rng_of rt p w
      in (f_to_i64 (rt_oob rt) (f_sub (f_of_int d) (f_mul spread (f_sub (Fin 1) u))), w1))"

definition next_delay :: "'w runtime \<Rightarrow> 'w RetryPolicy \<Rightarrow> duration \<Rightarrow> duration" where
  "next_delay rt p delay =
     (let delay = (if f_less (Fin 0) (Multiplier p)
                   then f_to_i64 (rt_oob rt) (f_mul (f_of_int delay) (Multiplier p))
                   else i64 (delay * 2))
      in if 0 < Max p \<and> Max p < delay then Max p else delay)"

definition backoff ::
  "'w runtime \<Rightarrow> 'w RetryPolicy \<Rightarrow> go_context \<Rightarrow> 'w sleeper \<Rightarrow> duration \<Rightarrow> 'w \<Rightarrow> goerror option \<times> 'w" where
  "backoff rt p ctx slp delay w =
     (if 0 < delay then
        (let (wait, w1) = (if f_less (Fin 0) (Jitter p) then applyJitter rt p delay w else (delay, w))
         in slp ctx wait w1)
      else (None, w))"

definition worth_retrying :: "'w RetryPolicy \<Rightarrow> goerror \<Rightarrow> 'w \<Rightarrow> bool \<times> 'w" where
  "worth_retrying p e w = (case Retryable p of None \<Rightarrow> (True, w) | Some f \<Rightarrow> f e w)"

function retry_loop ::
  "'w runtime \<Rightarrow> 'w RetryPolicy \<Rightarrow> go_context \<Rightarrow> 'w sleeper \<Rightarrow> 'w action \<Rightarrow>
   int \<Rightarrow> int \<Rightarrow> goerror option \<Rightarrow> duration \<Rightarrow> 'w action" where
  "retry_loop rt p ctx slp fn attempts i err delay w =
     (if i < attempts then
        (case fn w of
           (Returns None, w1) \<Rightarrow> (Returns None, w1)
         | (Returns (Some e), w1) \<Rightarrow>
             (let (again, w2) = worth_retrying p e w1
              in if \<not> again then (Returns (Some e), w2)
                 else if i = attempts - 1 then (Returns (Some e), w2)
                 else
                   (let (serr, w3) = backoff rt p ctx slp delay w2
                    in case serr of
                         Some se \<Rightarrow> (Returns (Some se), w3)
                       | None \<Rightarrow> retry_loop rt p ctx slp fn attempts (i + 1) (Some e)
                                   (next_delay rt p delay) w3))
         | (Panics v, w1) \<Rightarrow> (Panics v, w1)
         | (Blocks, w1) \<Rightarrow> (Blocks, w1))
      else (Returns err, w))"
  by pat_completeness auto
termination
  by (relation "measure (\<lambda>(rt, p, ctx, slp, fn, attempts, i, err, delay, w). nat (attempts - i))") auto

declare retry_loop.simps [simp del]

definition attempts_of :: "'w RetryPolicy \<Rightarrow> int" where
  "attempts_of p = (if MaxAttempts p \<le> 0 then 1 else MaxAttempts p)"

definition sleep_of :: "'a world_scheme runtime \<Rightarrow> 'a world_scheme RetryPolicy \<Rightarrow> 'a world_scheme sleeper" where
  "sleep_of rt p = (case sleep p of None \<Rightarrow> sleepCtx rt | Some s \<Rightarrow> s)"

definition RetryPolicy_Do ::
  "'a world_scheme runtime \<Rightarrow> 'a world_scheme RetryPolicy \<Rightarrow> go_context \<Rightarrow>
   'a world_scheme action \<Rightarrow> 'a world_scheme action" where
  "RetryPolicy_Do rt p ctx fn w =
     retry_loop rt p ctx (sleep_of rt p) fn (attempts_of p) 0 None (Base p) w"

section \<open>Counting calls\<close>

text \<open>
  Observations of the world that see the calls of \<open>fn\<close> only: no other callback of the policy
  changes them, and \<open>Retryable\<close> decides by a predicate on errors.
\<close>

definition quiet :: "'w runtime \<Rightarrow> 'w RetryPolicy \<Rightarrow> 'w sleeper \<Rightarrow> ('w \<Rightarrow> 'c) \<Rightarrow> bool" where
  "quiet rt p slp c \<longleftrightarrow>
     (\<forall>ctx d w. c (snd (slp ctx d w)) = c w) \<and> (\<forall>w. c (snd (rng_of rt p w)) = c w)"

definition decides :: "'w RetryPolicy \<Rightarrow> (goerror \<Rightarrow> bool) \<Rightarrow> bool" where
  "decides p R \<longleftrightarrow> (\<forall>e w. worth_retrying p e w = (R e, w))"

record cworld = world +
  calls :: nat
  slept :: "duration list"

definition counting :: "(nat \<Rightarrow> goerror option) \<Rightarrow> cworld action" where
  "counting outs w = (Returns (outs (calls w)), w\<lparr>calls := Suc (calls w)\<rparr>)"

definition noting_sleep :: "cworld sleeper" where
  "noting_sleep ctx d w = (None, w\<lparr>slept := slept w @ [d]\<rparr>)"

definition world0 :: cworld where
  "world0 = \<lparr>now_at = 0, breakers = (\<lambda>_. NewBreaker 1 1 60), bulkheads = (\<lambda>_. NewBulkhead 1),
             calls = 0, slept = []\<rparr>"

definition runtime0 :: "cworld runtime" where
  "runtime0 = \<lparr>rt_pick = (\<lambda>_. True), rt_float64 = (\<lambda>w. (Fin (1/2), w)), rt_oob = (\<lambda>_. 0),
     rt_wait = (\<lambda>ctx p w. map_option (\<lambda>t. w\<lparr>now_at := max t (now_at w)\<rparr>) (done_at ctx))\<rparr>"

definition plain_policy :: "int \<Rightarrow> duration \<Rightarrow> duration \<Rightarrow> cworld RetryPolicy" where
  "plain_policy n b m = \<lparr>MaxAttempts = n, Base = b, Max = m, Multiplier = Fin 0, Jitter = Fin 0,
     Retryable = None, sleep = Some noting_sleep, rng = None\<rparr>"

lemma quiet_backoff: "quiet rt p slp c \<Longrightarrow> c (snd (backoff rt p ctx slp delay w)) = c w"
  by (auto simp: quiet_def backoff_def applyJitter_def split_beta Let_def)

lemma backoff_ok: "\<forall>d w. fst (slp ctx d w) = None \<Longrightarrow> fst (backoff rt p ctx slp delay w) = None"
  by (auto simp: backoff_def split_beta)

lemma backoff_plain:
  "\<not> f_less (Fin 0) (Jitter p) \<Longrightarrow>
     backoff rt p ctx slp d w = (if 0 < d then slp ctx d w else (None, w))"
  by (simp add: backoff_def)

text \<open>
  The complete behaviour of the loop when the calls' outcomes are a sequence \<open>outs\<close> indexed by
  the number of calls made, and no sleep fails: it makes \<open>n\<close> calls, all but the last failed
  retryably, the result is the last outcome, and the loop stopped for one of three reasons.
\<close>

lemma retry_loop_outcome:
  assumes fn: "\<forall>w. fst (fn w) = Returns (outs (c w)) \<and> c (snd (fn w)) = Suc (c w)"
    and q: "quiet rt p slp c" and R: "decides p R"
    and slp: "\<forall>d w. fst (slp ctx d w) = None"
  shows "i < attempts \<Longrightarrow>
    \<exists>n. 0 < n \<and> int n \<le> attempts - i
      \<and> c (snd (retry_loop rt p ctx slp fn attempts i err delay w)) = c w + n
      \<and> fst (retry_loop rt p ctx slp fn attempts i err delay w) = Returns (outs (c w + n - 1))
      \<and> (\<forall>j < n - 1. \<exists>e. outs (c w + j) = Some e \<and> R e)
      \<and> (int n = attempts - i \<or> outs (c w + n - 1) = None
         \<or> (\<exists>e. outs (c w + n - 1) = Some e \<and> \<not> R e))"
proof (induction "nat (attempts - i)" arbitrary: i err delay w)
  case 0
  then show ?case by simp
next
  case (Suc k)
  obtain w1 where w1: "fn w = (Returns (outs (c w)), w1)" "c w1 = Suc (c w)"
    using spec [OF fn, of w] by (metis prod.collapse)
  have R': "worth_retrying p e w = (R e, w)" for e w using R by (simp add: decides_def)
  note unfold = retry_loop.simps [of rt p ctx slp fn attempts i err delay w]
  show ?case
  proof (cases "outs (c w)")
    case None
    then show ?thesis using Suc.prems w1 by (intro exI [of _ 1]) (simp add: unfold)
  next
    case (Some e)
    show ?thesis
    proof (cases "R e \<and> i \<noteq> attempts - 1")
      case False
      then show ?thesis
        using Suc.prems w1 Some by (intro exI [of _ 1]) (auto simp: unfold R')
    next
      case True
      obtain w3 where w3: "backoff rt p ctx slp delay w1 = (None, w3)"
        using backoff_ok [of slp ctx rt p delay w1] slp by (metis prod.collapse)
      have cw3: "c w3 = Suc (c w)" using quiet_backoff [OF q, of ctx delay w1] w1 w3 by simp
      let ?r = "retry_loop rt p ctx slp fn attempts (i + 1) (Some e) (next_delay rt p delay) w3"
      have loop: "retry_loop rt p ctx slp fn attempts i err delay w = ?r"
        using Suc.prems w1 Some True w3 by (simp add: unfold R')
      have "k = nat (attempts - (i + 1))" and "i + 1 < attempts" using Suc.hyps(2) Suc.prems True by auto
      then obtain n where n: "0 < n" "int n \<le> attempts - (i + 1)" "c (snd ?r) = c w3 + n"
        "fst ?r = Returns (outs (c w3 + n - 1))" "\<forall>j < n - 1. \<exists>e. outs (c w3 + j) = Some e \<and> R e"
        "int n = attempts - (i + 1) \<or> outs (c w3 + n - 1) = None
         \<or> (\<exists>e. outs (c w3 + n - 1) = Some e \<and> \<not> R e)"
        using Suc.hyps(1) [of "i + 1" "Some e" "next_delay rt p delay" w3] by blast
      have "\<exists>e. outs (c w + j) = Some e \<and> R e" if "j < n" for j
        using that n(5) True Some cw3 by (cases j) auto
      then show ?thesis
        using n cw3 loop by (intro exI [of _ "Suc n"]) auto
    qed
  qed
qed

section \<open>The delays\<close>

text \<open>The delays the loop asks for when every call fails retryably and no jitter is set.\<close>

lemma retry_loop_sleeps:
  assumes fn: "\<forall>w. \<exists>e. fst (fn w) = Returns (Some e) \<and> R e \<and> s (snd (fn w)) = s w"
    and R: "decides p R" and j: "\<not> f_less (Fin 0) (Jitter p)"
    and slp: "\<forall>d w. fst (slp ctx d w) = None \<and> s (snd (slp ctx d w)) = s w @ [d]"
  shows "i < attempts \<Longrightarrow>
    s (snd (retry_loop rt p ctx slp fn attempts i err delay w)) =
      s w @ filter ((<) 0) (map (\<lambda>k. (next_delay rt p ^^ k) delay) [0..<nat (attempts - i) - 1])"
proof (induction "nat (attempts - i)" arbitrary: i err delay w)
  case 0
  then show ?case by simp
next
  case (Suc k)
  obtain e w1 where w1: "fn w = (Returns (Some e), w1)" "R e" "s w1 = s w"
    using spec [OF fn, of w] by (metis prod.collapse)
  have R': "worth_retrying p e w1 = (True, w1)" using R w1(2) by (simp add: decides_def)
  note unfold = retry_loop.simps [of rt p ctx slp fn attempts i err delay w]
  show ?case
  proof (cases "i = attempts - 1")
    case True
    show ?thesis unfolding unfold using w1 R' True by simp
  next
    case False
    have "fst (backoff rt p ctx slp delay w1) = None"
      and "s (snd (backoff rt p ctx slp delay w1)) = s w @ filter ((<) 0) [delay]"
      using slp w1(3) by (simp_all add: backoff_plain [OF j])
    then obtain w3 where w3: "backoff rt p ctx slp delay w1 = (None, w3)"
      "s w3 = s w @ filter ((<) 0) [delay]"
      by (metis prod.collapse)
    let ?d = "next_delay rt p delay"
    have loop: "retry_loop rt p ctx slp fn attempts i err delay w =
        retry_loop rt p ctx slp fn attempts (i + 1) (Some e) ?d w3"
      using Suc.prems w1 R' False w3 by (simp add: unfold)
    have k: "k = nat (attempts - (i + 1))" "i + 1 < attempts" "nat (attempts - i) - 1 = Suc (k - 1)"
      using Suc.hyps(2) Suc.prems False by auto
    have "map (\<lambda>k. (next_delay rt p ^^ k) delay) [0..<nat (attempts - i) - 1] =
        delay # map (\<lambda>k. (next_delay rt p ^^ k) ?d) [0..<k - 1]"
      unfolding k(3) by (simp only: upt_conv_Cons map_Suc_upt [symmetric]) (simp add: funpow_swap1)
    then show ?thesis
      using Suc.hyps(1) [of "i + 1" "Some e" ?d w3] k(1,2) w3(2) by (simp add: loop)
  qed
qed

lemma next_delay_double:
  assumes "\<not> f_less (Fin 0) (Multiplier p)"
  shows "next_delay rt p d = (if 0 < Max p \<and> Max p < i64 (d * 2) then Max p else i64 (d * 2))"
  using assms by (simp add: next_delay_def Let_def)

lemma capped_delay:
  assumes "\<not> f_less (Fin 0) (Multiplier p)" and "0 \<le> Base p" and "Base p < 2 ^ 62"
    and "0 < Max p" and "Max p < 2 ^ 62"
  shows "(next_delay rt p ^^ k) (Base p) = (if k = 0 then Base p else min (Max p) (Base p * 2 ^ k))"
proof (induction k)
  case (Suc k)
  let ?d = "(next_delay rt p ^^ k) (Base p)"
  have d: "0 \<le> ?d" "?d < 2 ^ 62" using Suc assms by (auto simp: min_def)
  then have "i64 (?d * 2) = ?d * 2" by (intro i64_nonneg_id) simp_all
  then have "(next_delay rt p ^^ Suc k) (Base p) = min (Max p) (?d * 2)"
    using assms by (simp add: next_delay_double [OF assms(1)])
  also have "\<dots> = min (Max p) (Base p * 2 ^ Suc k)"
    unfolding Suc using assms(4) by (auto simp: min_def)
  finally show ?case by simp
qed simp

lemma i64_double: "i64 (i64 x * 2) = i64 (x * 2)"
proof -
  have "(i64 x * 2 + 2 ^ 63) mod 2 ^ 64 = (x * 2 + 2 ^ 63) mod 2 ^ 64"
  proof -
    have "i64 x = x + 2 ^ 64 * (- ((x + 2 ^ 63) div 2 ^ 64))"
      by (simp add: i64_def minus_mult_div_eq_mod [symmetric])
    then have "i64 x * 2 + 2 ^ 63 = (x * 2 + 2 ^ 63) + 2 ^ 64 * (- 2 * ((x + 2 ^ 63) div 2 ^ 64))"
      by (simp add: algebra_simps)
    then show ?thesis by (simp only: mod_mult_self2)
  qed
  then show ?thesis by (simp add: i64_def)
qed

lemma uncapped_delay:
  assumes "\<not> f_less (Fin 0) (Multiplier p)" and "Max p \<le> 0" and "is_i64 (Base p)"
  shows "(next_delay rt p ^^ k) (Base p) = i64 (Base p * 2 ^ k)"
proof (induction k)
  case 0
  then show ?case using assms by (simp add: i64_id)
next
  case (Suc k)
  then show ?case using assms by (simp add: next_delay_double i64_double mult.assoc mult.commute [of 2])
qed

lemma multiplier_step:
  assumes "Multiplier p = Fin (of_int m)" and "1 \<le> m" and "0 \<le> d" and "d * m \<le> 2 ^ 53"
  shows "next_delay rt p d = (if 0 < Max p \<and> Max p < d * m then Max p else d * m)"
proof -
  have "d * 1 \<le> d * m" using assms(2,3) by (intro mult_left_mono) simp_all
  then have d: "d \<le> 2 ^ 53" using assms(4) by simp
  have "0 \<le> d * m" using assms by simp
  then have "to_f64 (of_int (d * m)) = Fin (of_int (d * m))"
    using f_of_int_small [of "d * m"] assms(4) by (simp add: f_of_int_def)
  then have "f_mul (f_of_int d) (Fin (of_int m)) = Fin (of_int (d * m))"
    using f_of_int_small [of d] assms(3) d by simp
  then have "f_to_i64 (rt_oob rt) (f_mul (f_of_int d) (Multiplier p)) = d * m"
    using f_to_i64_small [of "of_int (d * m)"] assms \<open>0 \<le> d * m\<close> by (simp del: of_int_mult)
  moreover have "f_less (Fin 0) (Multiplier p)" using assms by simp
  ultimately show ?thesis by (simp add: next_delay_def Let_def)
qed

lemma no_delay:
  assumes "Multiplier p = Fin m"
  shows "next_delay rt p 0 = 0"
proof -
  have "f_of_int 0 = Fin 0" using f_of_int_small [of 0] by simp
  moreover have "to_f64 0 = Fin 0" using f_of_int_small [of 0] by (simp add: f_of_int_def)
  ultimately have "f_to_i64 (rt_oob rt) (f_mul (f_of_int 0) (Multiplier p)) = 0"
    using assms f_to_i64_small [of 0] by simp
  then show ?thesis by (simp add: next_delay_def Let_def i64_def)
qed

lemma no_delay_any_context:
  assumes "next_delay rt p 0 = 0"
  shows "retry_loop rt p ctx slp fn attempts i err 0 w = retry_loop rt p ctx' slp fn attempts i err 0 w"
proof (induction "nat (attempts - i)" arbitrary: i err w)
  case 0
  then show ?case by (simp add: retry_loop.simps)
next
  case (Suc k)
  then have "k = nat (attempts - (i + 1))" by simp
  then have "retry_loop rt p ctx slp fn attempts (i + 1) e 0 w =
      retry_loop rt p ctx' slp fn attempts (i + 1) e 0 w" for e w by (rule Suc.hyps(1))
  then show ?case
    by (subst (1 2) retry_loop.simps) (simp add: backoff_def assms split: prod.splits outcome.splits option.splits)
qed

text \<open>
  Two policies that differ only in how the delay grows run alike while the delays stay in a set
  on which both grow it in the same way.
\<close>

lemma retry_loop_same_growth:
  assumes "backoff rt p = backoff rt q" and "worth_retrying p = worth_retrying q"
    and grow: "\<And>d. d \<in> D \<Longrightarrow> next_delay rt p d = next_delay rt q d \<and> next_delay rt q d \<in> D"
  shows "delay \<in> D \<Longrightarrow>
    retry_loop rt p ctx slp fn attempts i err delay w = retry_loop rt q ctx slp fn attempts i err delay w"
proof (induction "nat (attempts - i)" arbitrary: i err delay w)
  case 0
  then show ?case by (simp add: retry_loop.simps)
next
  case (Suc k)
  have "k = nat (attempts - (i + 1))" and "next_delay rt q delay \<in> D"
    using Suc.hyps(2) grow [OF Suc.prems] by simp_all
  then have "retry_loop rt p ctx slp fn attempts (i + 1) e (next_delay rt q delay) w' =
      retry_loop rt q ctx slp fn attempts (i + 1) e (next_delay rt q delay) w'" for e w'
    by (rule Suc.hyps(1))
  then show ?case
    by (subst (1 2) retry_loop.simps) (simp add: assms(1,2) grow [OF Suc.prems]
        split: prod.splits outcome.splits option.splits)
qed

lemma doubling_agrees:
  assumes "0 \<le> d" and "d \<le> 2 ^ 52" and "0 < Max p" and "Max p \<le> 2 ^ 52"
  shows "next_delay rt (p\<lparr>Multiplier := Fin 2\<rparr>) d = next_delay rt (p\<lparr>Multiplier := Fin 0\<rparr>) d
    \<and> next_delay rt (p\<lparr>Multiplier := Fin 0\<rparr>) d = min (Max p) (d * 2)"
proof -
  have "i64 (d * 2) = d * 2" using assms by (intro i64_nonneg_id) simp_all
  moreover have "next_delay rt (p\<lparr>Multiplier := Fin 2\<rparr>) d = (if 0 < Max p \<and> Max p < d * 2 then Max p else d * 2)"
    using multiplier_step [of "p\<lparr>Multiplier := Fin 2\<rparr>" 2 d rt] assms by simp
  ultimately show ?thesis
    using assms(3) by (simp add: next_delay_double min_def)
qed

section \<open>Properties\<close>

text \<open>C5: what \<open>RetryPolicy.Do\<close> returns. Let \<open>outs\<close> be the sequence of the results of \<open>fn\<close>, call by
  call, and let the sleeps succeed. Then \<open>Do\<close> returns after \<open>n\<close> calls, at least one and at
  most \<open>MaxAttempts\<close> (one when that is not positive); every call but the last failed with an
  error worth retrying, the result is that of the last call, and the loop ended because the
  attempts were used up, the call succeeded, or its error is not worth retrying.\<close>

theorem retry_outcome:
  assumes "\<forall>w. fst (fn w) = Returns (outs (c w)) \<and> c (snd (fn w)) = Suc (c w)"
    and "quiet rt p (sleep_of rt p) c" and "decides p R"
    and "\<forall>d w. fst (sleep_of rt p ctx d w) = None"
  shows "\<exists>n. 0 < n \<and> int n \<le> max 1 (MaxAttempts p)
      \<and> c (snd (RetryPolicy_Do rt p ctx fn w)) = c w + n
      \<and> fst (RetryPolicy_Do rt p ctx fn w) = Returns (outs (c w + n - 1))
      \<and> (\<forall>j < n - 1. \<exists>e. outs (c w + j) = Some e \<and> R e)
      \<and> (int n = max 1 (MaxAttempts p) \<or> outs (c w + n - 1) = None
         \<or> (\<exists>e. outs (c w + n - 1) = Some e \<and> \<not> R e))"
proof -
  have "attempts_of p = max 1 (MaxAttempts p)" and "0 < attempts_of p" by (auto simp: attempts_of_def)
  then show ?thesis
    using retry_loop_outcome [OF assms, where i = 0 and attempts = "attempts_of p"]
    unfolding RetryPolicy_Do_def by simp
qed

theorem retry_outcome_witness:
  "\<exists>n. 0 < n \<and> int n \<le> 5
      \<and> calls (snd (RetryPolicy_Do runtime0 (plain_policy 5 10 15) \<lparr>done_at = None, ctx_err = ErrOpen\<rparr>
           (counting (\<lambda>k. if k < 3 then Some ErrOpen else None)) world0)) = n
      \<and> (int n = 5 \<or> (if n - 1 < 3 then Some ErrOpen else None) = None)"
proof -
  let ?o = "\<lambda>k::nat. if k < 3 then Some ErrOpen else None"
  let ?p = "plain_policy 5 10 15"
  have "\<forall>w. fst (counting ?o w) = Returns (?o (calls w)) \<and> calls (snd (counting ?o w)) = Suc (calls w)"
    by (simp add: counting_def)
  moreover have "quiet runtime0 ?p (sleep_of runtime0 ?p) calls"
    by (simp add: quiet_def sleep_of_def plain_policy_def noting_sleep_def rng_of_def runtime0_def)
  moreover have "decides ?p (\<lambda>_. True)" by (simp add: decides_def worth_retrying_def plain_policy_def)
  moreover have "\<forall>d w. fst (sleep_of runtime0 ?p \<lparr>done_at = None, ctx_err = ErrOpen\<rparr> d w) = None"
    by (simp add: sleep_of_def plain_policy_def noting_sleep_def)
  ultimately show ?thesis
    using retry_outcome [of "counting ?o" ?o calls runtime0 ?p "\<lambda>_. True" "\<lparr>done_at = None, ctx_err = ErrOpen\<rparr>" world0]
    by (auto simp: world0_def plain_policy_def)
qed

text \<open>C19: the backoff schedule of a policy without jitter whose multiplier is the default, when
  every call fails and is worth retrying: the sleeps between the attempts last \<open>Base\<close>, which
  \<open>Max\<close> does not cap, then \<open>Base\<close> doubled each time and capped by \<open>Max\<close>.\<close>

theorem backoff_schedule:
  assumes "\<forall>w. \<exists>e. fst (fn w) = Returns (Some e) \<and> R e \<and> s (snd (fn w)) = s w"
    and "decides p R" and "\<not> f_less (Fin 0) (Jitter p)"
    and "\<forall>d w. fst (sleep_of rt p ctx d w) = None \<and> s (snd (sleep_of rt p ctx d w)) = s w @ [d]"
    and "\<not> f_less (Fin 0) (Multiplier p)" and "0 < Base p" and "Base p < 2 ^ 62"
    and "0 < Max p" and "Max p < 2 ^ 62" and "1 < MaxAttempts p"
  shows "s (snd (RetryPolicy_Do rt p ctx fn w)) =
    s w @ Base p # map (\<lambda>k. min (Max p) (Base p * 2 ^ k)) [1..<nat (MaxAttempts p) - 1]"
proof -
  let ?m = "nat (MaxAttempts p) - 1"
  let ?d = "\<lambda>k. if k = 0 then Base p else min (Max p) (Base p * 2 ^ k)"
  have "s (snd (RetryPolicy_Do rt p ctx fn w)) = s w @ filter ((<) 0) (map ?d [0..<?m])"
    using retry_loop_sleeps [where fn = fn and R = R and s = s and p = p and slp = "sleep_of rt p"
        and ctx = ctx and i = 0 and attempts = "MaxAttempts p" and rt = rt and err = None
        and delay = "Base p" and w = w, OF assms(1-4)]
      capped_delay [OF assms(5) _ assms(7-9), where rt = rt] assms(6,10)
    by (simp add: RetryPolicy_Do_def attempts_of_def)
  also have "filter ((<) 0) (map ?d [0..<?m]) = map ?d [0..<?m]"
    using assms(6,8) by (intro filter_True) auto
  also have "\<dots> = Base p # map ?d [1..<?m]" using assms(10) by (simp add: upt_conv_Cons)
  finally show ?thesis by simp
qed

theorem backoff_schedule_witness:
  "slept (snd (RetryPolicy_Do runtime0 (plain_policy 6 10 45) \<lparr>done_at = None, ctx_err = ErrOpen\<rparr>
     (counting (\<lambda>_. Some ErrOpen)) world0)) = [10, 20, 40, 45, 45]"
proof -
  let ?p = "plain_policy 6 10 45"
  have "\<forall>w. \<exists>e. fst (counting (\<lambda>_. Some ErrOpen) w) = Returns (Some e) \<and> True
      \<and> slept (snd (counting (\<lambda>_. Some ErrOpen) w)) = slept w"
    by (simp add: counting_def)
  moreover have "decides ?p (\<lambda>_. True)" by (simp add: decides_def worth_retrying_def plain_policy_def)
  ultimately show ?thesis
    using backoff_schedule [of "counting (\<lambda>_. Some ErrOpen)" "\<lambda>_. True" slept ?p runtime0
        "\<lparr>done_at = None, ctx_err = ErrOpen\<rparr>" world0]
    by (simp add: plain_policy_def sleep_of_def noting_sleep_def world0_def upt_rec)
qed

text \<open>C29: without a cap the doubling wraps around in 64 bits: the delay before retry \<open>k\<close> is
  \<open>Base * 2\<^sup>k\<close> reduced to a signed 64-bit integer, and from the 64th retry on it is zero, so a
  policy with that many attempts ends up retrying with no pause at all.\<close>

theorem uncapped_backoff_wraps:
  assumes "\<not> f_less (Fin 0) (Multiplier p)" and "Max p \<le> 0" and "is_i64 (Base p)"
  shows "(next_delay rt p ^^ k) (Base p) = i64 (Base p * 2 ^ k)
    \<and> (64 \<le> k \<longrightarrow> (next_delay rt p ^^ k) (Base p) = 0)"
proof -
  have "i64 (Base p * 2 ^ k) = 0" if "64 \<le> k"
  proof -
    have "(2::int) ^ k = 2 ^ 64 * 2 ^ (k - 64)" using that by (simp only: power_add [symmetric] le_add_diff_inverse)
    then have "Base p * 2 ^ k + 2 ^ 63 = 2 ^ 63 + 2 ^ 64 * (Base p * 2 ^ (k - 64))" by simp
    then show ?thesis unfolding i64_def by (simp only: mod_mult_self2) simp
  qed
  then show ?thesis using uncapped_delay [OF assms] by simp
qed

theorem uncapped_backoff_wraps_witness:
  "(next_delay runtime0 (plain_policy 99 1 0) ^^ 63) 1 = - (2 ^ 63)
   \<and> (next_delay runtime0 (plain_policy 99 1 0) ^^ 64) 1 = 0"
  using uncapped_backoff_wraps [of "plain_policy 99 1 0" 63 runtime0]
    uncapped_backoff_wraps [of "plain_policy 99 1 0" 64 runtime0]
  by (simp add: plain_policy_def is_i64_def i64_def)

text \<open>A whole-number multiplier grows the delay exactly, whatever float arithmetic it goes
  through: while \<open>Base\<close> and \<open>Max\<close> times the multiplier stay below \<open>2\<^sup>53\<close> nanoseconds (104
  days), the delay before retry \<open>k\<close> is \<open>Base\<close> for the first, then \<open>Base * m\<^sup>k\<close> capped by \<open>Max\<close>;
  so a multiplier of 1 holds the delay and one of 2 gives the default schedule.\<close>

lemma multiplier_growth:
  assumes "Multiplier p = Fin (of_int m)" and "1 \<le> m" and "0 \<le> Base p" and "Base p * m \<le> 2 ^ 53"
    and "0 < Max p" and "Max p * m \<le> 2 ^ 53"
  shows "(next_delay rt p ^^ k) (Base p) = (if k = 0 then Base p else min (Max p) (Base p * m ^ k))"
proof (induction k)
  case (Suc k)
  let ?d = "(next_delay rt p ^^ k) (Base p)"
  have "min (Max p) (Base p * m ^ k) * m \<le> Max p * m" using assms(2) by (intro mult_right_mono) simp_all
  then have "min (Max p) (Base p * m ^ k) * m \<le> 2 ^ 53" using assms(6) by (rule order_trans)
  with Suc assms have d: "0 \<le> ?d" "?d * m \<le> 2 ^ 53" by auto
  have "(next_delay rt p ^^ Suc k) (Base p) = min (Max p) (?d * m)"
    using multiplier_step [OF assms(1,2) d, of rt] assms(5) by auto
  also have "\<dots> = min (Max p) (Base p * m ^ Suc k)"
  proof (cases "k = 0 \<or> Base p * m ^ k \<le> Max p")
    case True
    then show ?thesis unfolding Suc by (auto simp: min_def mult_ac)
  next
    case False
    then have "Max p * 1 \<le> Max p * m" "Max p * m \<le> Base p * m ^ k * m"
      using assms by (intro mult_left_mono mult_right_mono; simp)+
    then show ?thesis unfolding Suc using False by (simp add: mult_ac)
  qed
  finally show ?case by simp
qed simp

text \<open>C20: a multiplier of 2 and the default zero value are the same policy: with \<open>Base\<close> and a
  positive \<open>Max\<close> of at most \<open>2\<^sup>52\<close> nanoseconds (52 days), \<open>Do\<close> with the float multiplication
  gives the same result and leaves the same world as \<open>Do\<close> with the integer doubling, for
  every call, context, predicate, sleep and jitter.\<close>

theorem default_multiplier_equivalence:
  assumes "0 \<le> Base p" and "Base p \<le> 2 ^ 52" and "0 < Max p" and "Max p \<le> 2 ^ 52"
  shows "RetryPolicy_Do rt (p\<lparr>Multiplier := Fin 2\<rparr>) ctx fn w = RetryPolicy_Do rt (p\<lparr>Multiplier := Fin 0\<rparr>) ctx fn w"
proof -
  let ?D = "{d. 0 \<le> d \<and> d \<le> 2 ^ 52}"
  have "backoff rt (p\<lparr>Multiplier := Fin 2\<rparr>) = backoff rt (p\<lparr>Multiplier := Fin 0\<rparr>)"
    by (simp add: fun_eq_iff backoff_def applyJitter_def rng_of_def)
  moreover have "worth_retrying (p\<lparr>Multiplier := Fin 2\<rparr>) = worth_retrying (p\<lparr>Multiplier := Fin 0\<rparr>)"
    by (simp add: fun_eq_iff worth_retrying_def)
  moreover have "next_delay rt (p\<lparr>Multiplier := Fin 2\<rparr>) d = next_delay rt (p\<lparr>Multiplier := Fin 0\<rparr>) d
      \<and> next_delay rt (p\<lparr>Multiplier := Fin 0\<rparr>) d \<in> ?D" if "d \<in> ?D" for d
    using doubling_agrees [of d p rt] that assms(3,4) by simp
  moreover have "sleep_of rt (p\<lparr>Multiplier := Fin 2\<rparr>) = sleep_of rt (p\<lparr>Multiplier := Fin 0\<rparr>)"
    by (simp add: sleep_of_def)
  ultimately show ?thesis
    using retry_loop_same_growth [of rt "p\<lparr>Multiplier := Fin 2\<rparr>" "p\<lparr>Multiplier := Fin 0\<rparr>" ?D "Base p"] assms(1,2)
    by (simp add: RetryPolicy_Do_def attempts_of_def)
qed

theorem default_multiplier_equivalence_witness:
  "RetryPolicy_Do runtime0 ((plain_policy 4 10 25)\<lparr>Multiplier := Fin 2\<rparr>) \<lparr>done_at = None, ctx_err = ErrOpen\<rparr>
     (counting (\<lambda>_. Some ErrOpen)) world0
   = RetryPolicy_Do runtime0 ((plain_policy 4 10 25)\<lparr>Multiplier := Fin 0\<rparr>) \<lparr>done_at = None, ctx_err = ErrOpen\<rparr>
     (counting (\<lambda>_. Some ErrOpen)) world0"
  by (rule default_multiplier_equivalence) (simp_all add: plain_policy_def)

text \<open>C28: jitter. For a random number in \<open>[0, 1)\<close> and a delay \<open>d\<close> up to \<open>2\<^sup>53\<close> nanoseconds the
  sleep lies between zero and \<open>d\<close>, and above \<open>d * (1 - Jitter)\<close> less two nanoseconds (with
  \<open>Jitter\<close> clamped to 1): the rounding of the floats and the truncation can take it that far
  below the documented band, and never over \<open>d\<close>.\<close>

theorem jitter_within_band:
  assumes "0 \<le> d" and "d \<le> 2 ^ 53" and "Jitter p = Fin j" and "0 < j"
    and "rng_of rt p w = (Fin u, w1)" and "0 \<le> u" and "u < 1"
  shows "snd (applyJitter rt p d w) = w1
    \<and> 0 \<le> fst (applyJitter rt p d w) \<and> fst (applyJitter rt p d w) \<le> d
    \<and> of_int d * (1 - min 1 j) - 2 < (of_int (fst (applyJitter rt p d w)) :: rat)"
proof -
  have frac: "(if f_less (Fin 1) (Jitter p) then Fin 1 else Jitter p) = Fin (min 1 j)"
    using assms(3) by (simp add: min_def)
  have f: "0 \<le> min 1 j" "min 1 j \<le> 1" "u \<le> 1" using assms by simp_all
  have eq: "fst (applyJitter rt p d w) = f_to_i64 (rt_oob rt)
      (f_sub (f_of_int d) (f_mul (f_mul (f_of_int d) (Fin (min 1 j))) (f_sub (Fin 1) (Fin u))))"
    unfolding applyJitter_def frac assms(5) by (simp only: Let_def prod.case fst_conv)
  have "snd (applyJitter rt p d w) = w1"
    unfolding applyJitter_def assms(5) by (simp only: Let_def prod.case snd_conv)
  then show ?thesis using jittered_value [OF assms(1,2) f(1,2) assms(6) f(3) eq] by simp
qed

theorem jitter_within_band_witness:
  "0 \<le> fst (applyJitter runtime0 ((plain_policy 9 10 100)\<lparr>Jitter := Fin (1/2)\<rparr>) 1000 world0)
   \<and> fst (applyJitter runtime0 ((plain_policy 9 10 100)\<lparr>Jitter := Fin (1/2)\<rparr>) 1000 world0) \<le> 1000
   \<and> (498 :: rat) < of_int (fst (applyJitter runtime0 ((plain_policy 9 10 100)\<lparr>Jitter := Fin (1/2)\<rparr>) 1000 world0))"
  using jitter_within_band [of 1000 "(plain_policy 9 10 100)\<lparr>Jitter := Fin (1/2)\<rparr>" "1/2" runtime0 world0 "1/2" world0]
  by (simp add: plain_policy_def runtime0_def rng_of_def min_def)

text \<open>C30: backoff respects cancellation. When the first call fails and the context ends before
  the first delay has passed, the default sleep makes \<open>Do\<close> return the context's error at the
  moment of the cancellation, without another call of \<open>fn\<close>.\<close>

theorem retry_stops_on_cancel:
  assumes "sleep p = None" and "\<not> f_less (Fin 0) (Jitter p)" and "1 < MaxAttempts p" and "0 < Base p"
    and "fn w = (Returns (Some e), w1)" and "worth_retrying p e w1 = (True, w2)"
    and "done_at ctx = Some t" and "t < now_at w2 + Base p"
  shows "RetryPolicy_Do rt p ctx fn w = (Returns (Some (ctx_err ctx)), w2\<lparr>now_at := max t (now_at w2)\<rparr>)"
proof -
  have "sleepCtx rt ctx (Base p) w2 = (Some (ctx_err ctx), w2\<lparr>now_at := max t (now_at w2)\<rparr>)"
    using assms(4,7,8) by (auto simp: sleepCtx_def Let_def max_def)
  then have "backoff rt p ctx (sleep_of rt p) (Base p) w2 =
      (Some (ctx_err ctx), w2\<lparr>now_at := max t (now_at w2)\<rparr>)"
    using assms(1,4) by (simp add: backoff_plain [OF assms(2)] sleep_of_def)
  then show ?thesis
    using assms(3,5,6) by (simp add: RetryPolicy_Do_def attempts_of_def retry_loop.simps)
qed

theorem retry_stops_on_cancel_witness:
  "RetryPolicy_Do runtime0 ((plain_policy 9 10 100)\<lparr>sleep := None\<rparr>) \<lparr>done_at = Some 4, ctx_err = ErrOpen\<rparr>
     (counting (\<lambda>_. Some (Foreign 7 ''down'' None []))) world0
   = (Returns (Some ErrOpen), world0\<lparr>calls := 1, now_at := 4\<rparr>)"
proof -
  let ?e = "Foreign 7 ''down'' None []"
  show ?thesis
    using retry_stops_on_cancel [of "(plain_policy 9 10 100)\<lparr>sleep := None\<rparr>" "counting (\<lambda>_. Some ?e)" world0 ?e
        "world0\<lparr>calls := 1\<rparr>" "world0\<lparr>calls := 1\<rparr>" "\<lparr>done_at = Some 4, ctx_err = ErrOpen\<rparr>" 4 runtime0]
    by (simp add: plain_policy_def counting_def worth_retrying_def world0_def)
qed

text \<open>Without a delay the context is not looked at: when \<open>Base\<close> is zero (and the multiplier
  finite) the result of \<open>Do\<close> is the same under every context, one that is already cancelled
  included, so all attempts are made.\<close>

lemma retry_without_delay_ignores_context:
  assumes "Base p = 0" and "Multiplier p = Fin m"
  shows "RetryPolicy_Do rt p ctx fn w = RetryPolicy_Do rt p ctx' fn w"
  unfolding RetryPolicy_Do_def assms(1) by (rule no_delay_any_context [OF no_delay [OF assms(2)]])

end
