(* ===== verification/Res_Guard.thy ===== *)
theory Res_Guard
  imports Res_Retry
begin

text \<open>
  \<open>Guard\<close> of \<^verbatim>\<open>src/resilience/resilience.go\<close>: the bulkhead around the retries around the breaker,
  each part optional. The guard composes the definitions of the three parts as the code does.
\<close>

section \<open>The code\<close>

record 'w Guard =
  gBulkhead :: "addr option"
  gRetry :: "'w RetryPolicy option"
  gBreaker :: "addr option"

definition guard_call :: "'a world_scheme Guard \<Rightarrow> 'a world_scheme action \<Rightarrow> 'a world_scheme action" where
  "guard_call g fn = (case gBreaker g of None \<Rightarrow> fn | Some p \<Rightarrow> Breaker_Do p fn)"

definition guard_retried ::
  "'a world_scheme runtime \<Rightarrow> 'a world_scheme Guard \<Rightarrow> go_context \<Rightarrow> 'a world_scheme action \<Rightarrow> 'a world_scheme action" where
  "guard_retried rt g ctx fn =
     (case gRetry g of None \<Rightarrow> guard_call g fn | Some p \<Rightarrow> RetryPolicy_Do rt p ctx (guard_call g fn))"

definition Guard_Do ::
  "'a world_scheme runtime \<Rightarrow> 'a world_scheme Guard \<Rightarrow> go_context \<Rightarrow> 'a world_scheme action \<Rightarrow> 'a world_scheme action" where
  "Guard_Do rt g ctx fn =
     (case gBulkhead g of None \<Rightarrow> guard_retried rt g ctx fn
      | Some p \<Rightarrow> Bulkhead_Do rt ctx p (guard_retried rt g ctx fn))"

text \<open>The time a run of retries spends asleep, and policies that sleep without interruption.\<close>

definition total_backoff :: "'w runtime \<Rightarrow> 'w RetryPolicy \<Rightarrow> duration \<Rightarrow> nat \<Rightarrow> duration" where
  "total_backoff rt p delay n = (\<Sum>k<n. max 0 ((next_delay rt p ^^ k) delay))"

definition steady :: "'w RetryPolicy \<Rightarrow> go_context \<Rightarrow> bool" where
  "steady p ctx \<longleftrightarrow> sleep p = None \<and> \<not> f_less (Fin 0) (Jitter p) \<and> done_at ctx = None"

definition keeps_slots :: "addr \<Rightarrow> 'a world_scheme runtime \<Rightarrow> 'a world_scheme RetryPolicy \<Rightarrow> bool" where
  "keeps_slots q rt p \<longleftrightarrow> quiet rt p (sleep_of rt p) (\<lambda>w. bulkheads w q)
     \<and> (\<forall>e w. bulkheads (snd (worth_retrying p e w)) q = bulkheads w q)"

definition guard0 :: "addr option \<Rightarrow> int \<Rightarrow> cworld Guard" where
  "guard0 h n = \<lparr>gBulkhead = h, gRetry = Some ((plain_policy n 10 100)\<lparr>sleep := None\<rparr>), gBreaker = Some 1\<rparr>"

section \<open>Lemmas\<close>

lemma backoff0: "total_backoff runtime0 ((plain_policy n 10 100)\<lparr>sleep := None\<rparr>) 10 2 = 30"
  by (simp add: total_backoff_def numeral_2_eq_2 next_delay_def plain_policy_def i64_def)

lemma steady0: "done_at ctx = None \<Longrightarrow> steady ((plain_policy n b m)\<lparr>sleep := None\<rparr>) ctx"
  by (simp add: steady_def plain_policy_def)

lemma decides0: "decides ((plain_policy n b m)\<lparr>sleep := None\<rparr>) (\<lambda>_. True)"
  by (simp add: decides_def worth_retrying_def plain_policy_def)

lemma attempts0: "0 < n \<Longrightarrow> attempts_of ((plain_policy n b m)\<lparr>sleep := None\<rparr>) = n"
  by (simp add: attempts_of_def plain_policy_def)

lemma Base0: "Base ((plain_policy n b m)\<lparr>sleep := None\<rparr>) = b"
  by (simp add: plain_policy_def)

lemma total_backoff_Suc:
  "total_backoff rt p delay (Suc n) = max 0 delay + total_backoff rt p (next_delay rt p delay) n"
  unfolding total_backoff_def by (simp add: sum.lessThan_Suc_shift funpow_swap1 del: sum.lessThan_Suc)

lemma total_backoff_nonneg [simp]: "0 \<le> total_backoff rt p delay n"
  by (simp add: total_backoff_def sum_nonneg)

lemma steady_backoff:
  assumes "steady p ctx"
  shows "backoff rt p ctx (sleep_of rt p) delay w = (None, w\<lparr>now_at := now_at w + max 0 delay\<rparr>)"
  using assms by (auto simp: steady_def backoff_plain sleep_of_def sleepCtx_def)

lemma steady_iteration:
  assumes "steady p ctx" and "i + 1 < attempts" and "call w = (Returns (Some e), w1)"
    and "worth_retrying p e w1 = (True, w1)"
  shows "retry_loop rt p ctx (sleep_of rt p) call attempts i err delay w =
    retry_loop rt p ctx (sleep_of rt p) call attempts (i + 1) (Some e) (next_delay rt p delay)
      (w1\<lparr>now_at := now_at w1 + max 0 delay\<rparr>)"
  using assms(2-4)
  by (simp add: retry_loop.simps [of rt p ctx "sleep_of rt p" call attempts i err delay w] steady_backoff [OF assms(1)])

text \<open>Retries against an open breaker: nothing happens but the passing of time.\<close>

lemma open_retry:
  assumes "steady p ctx" and "decides p R" and "breaker_inv b" and "bstate b = StateOpen"
  shows "i < attempts \<Longrightarrow> breakers w q = b \<Longrightarrow>
    now_at w + total_backoff rt p delay (nat (attempts - i) - 1) < openedAt b + resetTimeout b \<Longrightarrow>
    retry_loop rt p ctx (sleep_of rt p) (Breaker_Do q fn) attempts i err delay w =
      (Returns (Some ErrOpen),
       w\<lparr>now_at := now_at w + (if R ErrOpen then total_backoff rt p delay (nat (attempts - i) - 1) else 0)\<rparr>)"
proof (induction "nat (attempts - i)" arbitrary: i err delay w)
  case 0
  then show ?case by simp
next
  case (Suc k)
  let ?n = "nat (attempts - i) - 1"
  have "now_at w < openedAt b + resetTimeout b"
    using Suc.prems(3) total_backoff_nonneg [of rt p delay ?n] by linarith
  then have call: "Breaker_Do q fn w = (Returns (Some ErrOpen), w)"
    using Breaker_Do_open [of w q fn] Suc.prems(2) assms(3,4) by simp
  have again: "worth_retrying p ErrOpen w = (R ErrOpen, w)" using assms(2) by (simp add: decides_def)
  note unfold = retry_loop.simps [of rt p ctx "sleep_of rt p" "Breaker_Do q fn" attempts i err delay w]
  show ?case
  proof (cases "R ErrOpen \<and> i \<noteq> attempts - 1")
    case False
    then show ?thesis using Suc.prems(1) by (auto simp: unfold call again total_backoff_def)
  next
    case True
    let ?w = "w\<lparr>now_at := now_at w + max 0 delay\<rparr>"
    have k: "k = nat (attempts - (i + 1))" "i + 1 < attempts" "?n = Suc (nat (attempts - (i + 1)) - 1)"
      using Suc.hyps(2) Suc.prems(1) True by auto
    note total = total_backoff_Suc [of rt p delay "nat (attempts - (i + 1)) - 1", folded k(3)]
    have "retry_loop rt p ctx (sleep_of rt p) (Breaker_Do q fn) attempts i err delay w =
        retry_loop rt p ctx (sleep_of rt p) (Breaker_Do q fn) attempts (i + 1) (Some ErrOpen) (next_delay rt p delay) ?w"
      using steady_iteration [where call = "Breaker_Do q fn" and w = w, OF assms(1) k(2) call] again True by simp
    then show ?thesis
      using Suc.hyps(1) [of "i + 1" ?w "next_delay rt p delay" "Some ErrOpen"] k(1,2) Suc.prems(2,3) True
      by (simp add: total add.assoc del: One_nat_def)
  qed
qed

text \<open>A failing call through a closed breaker counts, and opens the breaker at the threshold.\<close>

lemma Record_closed_failure:
  assumes "breaker_inv b" and "bstate b = StateClosed"
  shows "Breaker_Record now False b =
    (if failures b + 1 = failureThreshold b then b\<lparr>bstate := StateOpen, openedAt := now, failures := 0\<rparr>
     else b\<lparr>failures := failures b + 1\<rparr>)"
proof -
  have "i64 (failures b + 1) = failures b + 1" and "failures b < failureThreshold b" and "successes b = 0"
    using assms by (auto simp: breaker_inv_def intro!: i64_suc)
  then show ?thesis using assms(2) by (auto simp: breaker_defs)
qed

lemma closed_failure_call:
  assumes "breaker_inv (breakers w q)" and "bstate (breakers w q) = StateClosed"
    and "fn w = (Returns (Some e), w1)" and "breakers w1 = breakers w"
  defines "b \<equiv> breakers w q"
  defines "b1 \<equiv> (if failures b + 1 = failureThreshold b
    then b\<lparr>bstate := StateOpen, openedAt := now_at w1, failures := 0\<rparr> else b\<lparr>failures := failures b + 1\<rparr>)"
  shows "Breaker_Do q fn w = (Returns (Some e), w1\<lparr>breakers := (breakers w)(q := b1)\<rparr>)" and "breaker_inv b1"
proof -
  have allow: "Breaker_Allow (now_at w) (breakers w q) = (True, breakers w q)"
    using assms(2) by (simp add: Breaker_Allow_def maybeHalfOpenLocked_def)
  have same: "w\<lparr>breakers := (breakers w)(q := breakers w q)\<rparr> = w" by simp
  have b1: "Breaker_Record (now_at w1) False b = b1"
    unfolding b1_def b_def by (rule Record_closed_failure [OF assms(1,2)])
  then show "Breaker_Do q fn w = (Returns (Some e), w1\<lparr>breakers := (breakers w)(q := b1)\<rparr>)"
    using Breaker_Do_admitted [of w q fn] allow same assms(3,4) by (simp add: b_def)
  show "breaker_inv b1" using breaker_inv_record [OF assms(1)] b1 by (metis b_def)
qed

lemma closed_retry:
  assumes "steady p ctx" and "decides p (\<lambda>_. True)"
    and fn: "\<forall>w. \<exists>w'. fn w = (Returns (Some e), w') \<and> c w' = Suc (c w) \<and> breakers w' = breakers w"
    and c: "\<forall>w B t. c (w\<lparr>breakers := B\<rparr>) = c w \<and> c (w\<lparr>now_at := t\<rparr>) = c w"
  shows "i < attempts \<Longrightarrow> breaker_inv (breakers w q) \<Longrightarrow> bstate (breakers w q) = StateClosed \<Longrightarrow>
    total_backoff rt p delay (nat (attempts - i) - 1) < resetTimeout (breakers w q) \<Longrightarrow>
    int n = failureThreshold (breakers w q) - failures (breakers w q) \<Longrightarrow>
    r = retry_loop rt p ctx (sleep_of rt p) (Breaker_Do q fn) attempts i err delay w \<Longrightarrow>
    c (snd r) = c w + min n (nat (attempts - i))
    \<and> fst r = Returns (Some (if nat (attempts - i) \<le> n then e else ErrOpen))"
proof (induction "nat (attempts - i)" arbitrary: i err delay w n)
  case 0
  then show ?case by simp
next
  case (Suc k)
  let ?b = "breakers w q" and ?D = "next_delay rt p delay"
  note prems = Suc.prems
  obtain w1 where w1: "fn w = (Returns (Some e), w1)" "c w1 = Suc (c w)" "breakers w1 = breakers w"
    using fn by blast
  define b1 where "b1 = (if failures ?b + 1 = failureThreshold ?b
    then ?b\<lparr>bstate := StateOpen, openedAt := now_at w1, failures := 0\<rparr> else ?b\<lparr>failures := failures ?b + 1\<rparr>)"
  let ?w2 = "w1\<lparr>breakers := (breakers w)(q := b1)\<rparr>"
  let ?w3 = "?w2\<lparr>now_at := now_at w1 + max 0 delay\<rparr>"
  note call = closed_failure_call [where fn = fn and w = w, OF prems(2,3) w1(1,3), folded b1_def]
  have c3: "c ?w2 = Suc (c w)" "c ?w3 = Suc (c w)" using c w1(2) by simp_all
  have n: "0 < n" using prems(2,5) by (auto simp: breaker_inv_def)
  have again: "worth_retrying p e v = (True, v)" for v using assms(2) by (simp add: decides_def)
  show ?case
  proof (cases "i = attempts - 1")
    case True
    then show ?thesis using prems(6) n c3(1) call(1) again by (simp add: retry_loop.simps)
  next
    case False
    let ?r = "retry_loop rt p ctx (sleep_of rt p) (Breaker_Do q fn) attempts (i + 1) (Some e) ?D ?w3"
    have k: "k = nat (attempts - (i + 1))" "i + 1 < attempts" "nat (attempts - i) = Suc k" "nat (attempts - i) - 1 = Suc (k - 1)"
      using Suc.hyps(2) prems(1) False by auto
    have r: "r = ?r"
      using steady_iteration [where call = "Breaker_Do q fn" and w = w, OF assms(1) k(2) call(1) again] prems(6) by simp
    note total = total_backoff_Suc [of rt p delay "k - 1", folded k(4)]
    show ?thesis
    proof (cases "failures ?b + 1 = failureThreshold ?b")
      case True
      then have "?r = (Returns (Some ErrOpen), ?w3\<lparr>now_at := now_at ?w3 + total_backoff rt p ?D (k - 1)\<rparr>)"
        using open_retry [OF assms(1,2) call(2), of "i + 1" attempts ?w3 q rt ?D fn "Some e"] b1_def k(1,2) prems(4)
        unfolding total by simp
      moreover have "n = 1" using True prems(5) by simp
      ultimately show ?thesis using r c c3(2) k(1-3) by simp
    next
      case F: False
      have "total_backoff rt p ?D (k - 1) < resetTimeout ?b" using prems(4) unfolding total by linarith
      then have "c (snd r) = c ?w3 + min (n - 1) (nat (attempts - (i + 1)))
        \<and> fst r = Returns (Some (if nat (attempts - (i + 1)) \<le> n - 1 then e else ErrOpen))"
        using Suc.hyps(1) [of "i + 1" ?w3 ?D "n - 1" "Some e"] call(2) b1_def F k(1,2) prems(3,5) n r
        by (simp add: of_nat_diff)
      then show ?thesis using c3(2) k(1,3) n by auto
    qed
  qed
qed

text \<open>Observations that no part of a call changes.\<close>

lemma retry_loop_keeps:
  assumes "\<forall>w. fst (fn w) \<noteq> Blocks \<and> c (snd (fn w)) = c w" and "\<forall>d w. c (snd (backoff rt p ctx slp d w)) = c w"
    and "\<forall>e w. c (snd (worth_retrying p e w)) = c w"
  shows "fst (retry_loop rt p ctx slp fn attempts i err delay w) \<noteq> Blocks
    \<and> c (snd (retry_loop rt p ctx slp fn attempts i err delay w)) = c w"
proof (induction "nat (attempts - i)" arbitrary: i err delay w)
  case 0
  then show ?case by (simp add: retry_loop.simps)
next
  case (Suc k)
  obtain r w1 where fn: "fn w = (r, w1)" and w1: "r \<noteq> Blocks" "c w1 = c w"
    using assms(1) by (metis prod.collapse)
  have IH: "fst (retry_loop rt p ctx slp fn attempts (i + 1) e d v) \<noteq> Blocks
      \<and> c (snd (retry_loop rt p ctx slp fn attempts (i + 1) e d v)) = c v" for e d v
    by (rule Suc.hyps(1)) (use Suc.hyps(2) in simp)
  have again: "c w2 = c w" if "worth_retrying p e w1 = (b, w2)" for e b w2
    using assms(3) w1(2) that by (metis snd_conv)
  have slept: "c w3 = c w2" if "backoff rt p ctx slp delay w2 = (x, w3)" for x w2 w3
    using assms(2) that by (metis snd_conv)
  show ?case
    using IH again slept w1
    by (subst (1 2) retry_loop.simps) (auto simp: fn split: prod.splits outcome.splits option.splits)
qed

lemma Breaker_Do_keeps:
  assumes "\<forall>v. fst (fn v) \<noteq> Blocks \<and> bulkheads (snd (fn v)) q = bulkheads v q"
  shows "fst (Breaker_Do p fn w) \<noteq> Blocks \<and> bulkheads (snd (Breaker_Do p fn w)) q = bulkheads w q"
proof -
  let ?w = "snd (on_breaker p (Breaker_Allow (now_at w)) w)"
  have "bulkheads ?w q = bulkheads w q" by (simp add: on_breaker_def split_beta Let_def)
  then have "fst (fn ?w) \<noteq> Blocks" "bulkheads (snd (fn ?w)) q = bulkheads w q" using assms by auto
  then show ?thesis
    by (auto simp: Breaker_Do_def on_breaker_def split_beta Let_def split: prod.splits outcome.splits)
qed

lemma steady_retry_keeps:
  assumes "steady p ctx" and "decides p R"
    and "\<forall>v. fst (fn v) \<noteq> Blocks \<and> bulkheads (snd (fn v)) h = bulkheads v h"
  shows "bulkheads (snd (retry_loop rt p ctx (sleep_of rt p) (Breaker_Do q fn) attempts i err delay w)) h = bulkheads w h"
proof -
  have "\<forall>v. fst (Breaker_Do q fn v) \<noteq> Blocks \<and> bulkheads (snd (Breaker_Do q fn v)) h = bulkheads v h"
    using Breaker_Do_keeps [OF assms(3)] by blast
  then show ?thesis
    using retry_loop_keeps [where c = "\<lambda>w. bulkheads w h" and fn = "Breaker_Do q fn" and p = p and ctx = ctx]
      assms(2) by (simp add: steady_backoff [OF assms(1)] decides_def)
qed

lemma guard_retried_keeps:
  assumes "\<forall>v. fst (fn v) \<noteq> Blocks \<and> bulkheads (snd (fn v)) q = bulkheads v q"
    and "\<forall>p. gRetry g = Some p \<longrightarrow> keeps_slots q rt p"
  shows "fst (guard_retried rt g ctx fn v) \<noteq> Blocks
    \<and> bulkheads (snd (guard_retried rt g ctx fn v)) q = bulkheads v q"
proof -
  have call: "\<forall>v. fst (guard_call g fn v) \<noteq> Blocks \<and> bulkheads (snd (guard_call g fn v)) q = bulkheads v q"
    using assms(1) Breaker_Do_keeps [OF assms(1)] by (auto simp: guard_call_def split: option.split)
  show ?thesis
  proof (cases "gRetry g")
    case None
    then show ?thesis using call by (simp add: guard_retried_def)
  next
    case (Some p)
    then have "\<forall>d w. bulkheads (snd (backoff rt p ctx (sleep_of rt p) d w)) q = bulkheads w q"
      and "\<forall>e w. bulkheads (snd (worth_retrying p e w)) q = bulkheads w q"
      using assms(2) quiet_backoff [where c = "\<lambda>w. bulkheads w q"] by (auto simp: keeps_slots_def)
    then show ?thesis
      using Some retry_loop_keeps [where c = "\<lambda>w. bulkheads w q", OF call]
      by (simp add: guard_retried_def RetryPolicy_Do_def)
  qed
qed

section \<open>Properties\<close>

text \<open>C9: a guard fails fast. When its breaker is open and stays so for the time the retries
  sleep (with the default sleep and no jitter, under a context that never ends, and with a
  free slot in the bulkhead, if there is one), \<open>Guard.Do\<close> returns \<open>ErrOpen\<close> and the only thing that has changed in the world is the
  clock, by exactly the backoff between the attempts: \<open>fn\<close> is not called, and the slot of the
  bulkhead is free again.\<close>

theorem guard_fails_fast:
  assumes "gBreaker g = Some q" and "gRetry g = Some p" and "steady p ctx" and "decides p R"
    and "\<forall>h. gBulkhead g = Some h \<longrightarrow> sem_send (bulkheads w h) \<noteq> None"
    and "breaker_inv (breakers w q)" and "bstate (breakers w q) = StateOpen"
    and "now_at w + total_backoff rt p (Base p) (nat (attempts_of p) - 1)
           < openedAt (breakers w q) + resetTimeout (breakers w q)"
  shows "Guard_Do rt g ctx fn w =
    (Returns (Some ErrOpen),
     w\<lparr>now_at := now_at w + (if R ErrOpen then total_backoff rt p (Base p) (nat (attempts_of p) - 1) else 0)\<rparr>)"
proof -
  have retried: "guard_retried rt g ctx fn v =
    (Returns (Some ErrOpen),
     v\<lparr>now_at := now_at v + (if R ErrOpen then total_backoff rt p (Base p) (nat (attempts_of p) - 1) else 0)\<rparr>)"
    if "breakers v = breakers w" and "now_at v = now_at w" for v
    using open_retry [OF assms(3,4,6,7), of 0 "attempts_of p" v q rt "Base p" fn None] that assms(1,2,8)
    by (simp add: guard_retried_def guard_call_def RetryPolicy_Do_def attempts_of_def)
  show ?thesis
  proof (cases "gBulkhead g")
    case None
    then show ?thesis using retried [of w] by (simp add: Guard_Do_def)
  next
    case (Some h)
    then obtain b where "sem_send (bulkheads w h) = Some b" using assms(5) by blast
    moreover have "\<not> ctx_done ctx (now_at w)" using assms(3) by (simp add: steady_def ctx_done_def)
    ultimately show ?thesis
      using Some retried [of "w\<lparr>bulkheads := (bulkheads w)(h := b)\<rparr>"]
      by (simp add: Guard_Do_def Bulkhead_Do_free)
  qed
qed

theorem guard_fails_fast_witness:
  "Guard_Do runtime0 (guard0 (Some 2) 3) \<lparr>done_at = None, ctx_err = ErrOpen\<rparr> (\<lambda>w. (Panics ''called'', w))
     (world0\<lparr>breakers := (\<lambda>_. Breaker_Record 0 False (NewBreaker 1 1 60))\<rparr>)
   = (Returns (Some ErrOpen), world0\<lparr>breakers := (\<lambda>_. Breaker_Record 0 False (NewBreaker 1 1 60)), now_at := 30\<rparr>)"
proof -
  let ?b = "Breaker_Record 0 False (NewBreaker 1 1 60)" and ?p = "(plain_policy 3 10 100)\<lparr>sleep := None\<rparr>"
  let ?w = "world0\<lparr>breakers := (\<lambda>_. ?b)\<rparr>" and ?ctx = "\<lparr>done_at = None, ctx_err = ErrOpen\<rparr>"
  have "breaker_inv ?b" by (intro breaker_inv_record breaker_inv_new) (simp_all add: is_i64_def)
  moreover have "bstate ?b = StateOpen" and "openedAt ?b + resetTimeout ?b = 60"
    by (simp_all add: breaker_defs NewBreaker_def i64_def)
  moreover have "sem_send (bulkheads ?w 2) \<noteq> None"
    by (simp add: world0_def NewBulkhead_def sem_send_def)
  moreover have "now_at ?w = 0" by (simp add: world0_def)
  ultimately show ?thesis
    using guard_fails_fast [of "guard0 (Some 2) 3" 1 ?p ?ctx "\<lambda>_. True" ?w runtime0 "\<lambda>w. (Panics ''called'', w)"]
    by (simp add: guard0_def steady0 decides0 attempts0 Base0 backoff0)
qed

text \<open>C3: a guard spares a failing dependency. Take a guard with retries and a closed breaker, and
  an \<open>fn\<close> that always fails, in whatever time, with an error the policy retries, and that does
  not itself use the breaker or the bulkhead. Let the policy use the default sleep without
  jitter, the context never end, the bulkhead, if there is one, have a free slot, and let the
  sleeps of all retries together be shorter than the reset timeout, so that the breaker does
  not become half-open within the call. Then \<open>fn\<close> is called only until the breaker opens: as often
  as failures are missing to the threshold, or as there are attempts when those are fewer. The
  remaining attempts end with \<open>ErrOpen\<close>, which is then the result.\<close>

theorem guard_spares_dependency:
  assumes "gBreaker g = Some q" and "gRetry g = Some p"
    and "\<forall>h. gBulkhead g = Some h \<longrightarrow> sem_send (bulkheads w h) \<noteq> None"
    and "steady p ctx" and "decides p (\<lambda>_. True)"
    and "\<forall>w. \<exists>w'. fn w = (Returns (Some e), w') \<and> c w' = Suc (c w) \<and> breakers w' = breakers w \<and> bulkheads w' = bulkheads w"
    and "\<forall>w B H t. c (w\<lparr>breakers := B\<rparr>) = c w \<and> c (w\<lparr>bulkheads := H\<rparr>) = c w \<and> c (w\<lparr>now_at := t\<rparr>) = c w"
    and "breaker_inv (breakers w q)" and "bstate (breakers w q) = StateClosed"
    and "total_backoff rt p (Base p) (nat (attempts_of p) - 1) < resetTimeout (breakers w q)"
    and "int n = failureThreshold (breakers w q) - failures (breakers w q)"
  shows "c (snd (Guard_Do rt g ctx fn w)) = c w + min n (nat (attempts_of p))
    \<and> fst (Guard_Do rt g ctx fn w) = Returns (Some (if nat (attempts_of p) \<le> n then e else ErrOpen))"
proof -
  have fn: "\<forall>w. \<exists>w'. fn w = (Returns (Some e), w') \<and> c w' = Suc (c w) \<and> breakers w' = breakers w"
    using assms(6) by blast
  have c: "\<forall>w B t. c (w\<lparr>breakers := B\<rparr>) = c w \<and> c (w\<lparr>now_at := t\<rparr>) = c w" using assms(7) by blast
  have run: "guard_retried rt g ctx fn v =
      retry_loop rt p ctx (sleep_of rt p) (Breaker_Do q fn) (attempts_of p) 0 None (Base p) v" for v
    using assms(1,2) by (simp add: guard_retried_def guard_call_def RetryPolicy_Do_def)
  have "0 < attempts_of p" by (simp add: attempts_of_def)
  then have inner: "c (snd (guard_retried rt g ctx fn v)) = c v + min n (nat (attempts_of p))
      \<and> fst (guard_retried rt g ctx fn v) = Returns (Some (if nat (attempts_of p) \<le> n then e else ErrOpen))"
    if "breakers v = breakers w" for v
    using closed_retry [where c = c and i = 0 and attempts = "attempts_of p" and w = v and q = q,
        OF assms(4,5) fn c] assms(8-11) that run by simp
  show ?thesis
  proof (cases "gBulkhead g")
    case None
    then show ?thesis using inner [of w] by (simp add: Guard_Do_def)
  next
    case (Some h)
    then obtain b where b: "sem_send (bulkheads w h) = Some b" using assms(3) by blast
    let ?v = "w\<lparr>bulkheads := (bulkheads w)(h := b)\<rparr>"
    obtain r w2 where r: "guard_retried rt g ctx fn ?v = (r, w2)" by fastforce
    have "fst (fn v) \<noteq> Blocks \<and> bulkheads (snd (fn v)) h = bulkheads v h" for v
      using spec [OF assms(6), of v] by auto
    then have "bulkheads w2 h = b"
      using steady_retry_keeps [OF assms(4,5), of fn h rt q "attempts_of p" 0 None "Base p" ?v] r run [of ?v] by simp
    moreover have "\<not> ctx_done ctx (now_at w)" using assms(4) by (simp add: steady_def ctx_done_def)
    ultimately have "Guard_Do rt g ctx fn w = (r, w2\<lparr>bulkheads := (bulkheads w2)(h := bulkheads w h)\<rparr>)"
      using Some b r inner [of ?v] by (simp add: Guard_Do_def Bulkhead_Do_free)
    then show ?thesis using inner [of ?v] r assms(7) by simp
  qed
qed

theorem guard_spares_dependency_witness:
  "calls (snd (Guard_Do runtime0 (guard0 (Some 2) 3) \<lparr>done_at = None, ctx_err = ErrOpen\<rparr>
      (counting (\<lambda>_. Some (Foreign 7 ''down'' None []))) (world0\<lparr>breakers := (\<lambda>_. NewBreaker 2 1 60)\<rparr>))) = 2
   \<and> fst (Guard_Do runtime0 (guard0 (Some 2) 3) \<lparr>done_at = None, ctx_err = ErrOpen\<rparr>
      (counting (\<lambda>_. Some (Foreign 7 ''down'' None []))) (world0\<lparr>breakers := (\<lambda>_. NewBreaker 2 1 60)\<rparr>)) =
     Returns (Some ErrOpen)"
proof -
  let ?p = "(plain_policy 3 10 100)\<lparr>sleep := None\<rparr>" and ?e = "Foreign 7 ''down'' None []"
  let ?w = "world0\<lparr>breakers := (\<lambda>_. NewBreaker 2 1 60)\<rparr>" and ?ctx = "\<lparr>done_at = None, ctx_err = ErrOpen\<rparr>"
  have "breaker_inv (NewBreaker 2 1 60)" by (rule breaker_inv_new) (simp_all add: is_i64_def)
  moreover have "sem_send (bulkheads ?w 2) \<noteq> None" by (simp add: world0_def NewBulkhead_def sem_send_def)
  ultimately show ?thesis
    using guard_spares_dependency [of "guard0 (Some 2) 3" 1 ?p ?w ?ctx "counting (\<lambda>_. Some ?e)" ?e calls runtime0 2]
    by (simp add: guard0_def steady0 decides0 attempts0 Base0 backoff0 counting_def NewBreaker_def)
      (simp add: world0_def)
qed

text \<open>C23: a guard gives the bulkhead's slot back on every path. Let \<open>fn\<close> and the callbacks of the
  policy leave the slots as they found them, and \<open>fn\<close> return or panic. When the select of the
  bulkhead resumes, at once or after a wait, the call ends, and the semaphore is then as it was
  when the select resumed, whatever the retries and the breaker did in between and also when
  \<open>fn\<close> panics. If there was no slot at that moment, the result is the context's error, the moment
  is that of the cancellation, and nothing was done; if there was one and the context is not
  done, the result is that of the retries. Only with all slots taken and a context that never
  ends can the call wait for ever.\<close>

theorem guard_gives_slot_back:
  assumes "gBulkhead g = Some q" and "\<forall>v. fst (fn v) \<noteq> Blocks \<and> bulkheads (snd (fn v)) q = bulkheads v q"
    and "\<forall>p. gRetry g = Some p \<longrightarrow> keeps_slots q rt p" and "wakes rt"
  shows "case select_resumes rt ctx q w of
      None \<Rightarrow> Guard_Do rt g ctx fn w = (Blocks, w) \<and> sem_send (bulkheads w q) = None \<and> done_at ctx = None
    | Some w1 \<Rightarrow>
        fst (Guard_Do rt g ctx fn w) \<noteq> Blocks
      \<and> bulkheads (snd (Guard_Do rt g ctx fn w)) q = bulkheads w1 q
      \<and> (sem_send (bulkheads w1 q) = None \<longrightarrow> Guard_Do rt g ctx fn w = (Returns (Some (ctx_err ctx)), w1)
           \<and> (\<exists>t. done_at ctx = Some t \<and> now_at w1 = max t (now_at w)))
      \<and> (sem_send (bulkheads w1 q) \<noteq> None \<and> \<not> ctx_done ctx (now_at w1) \<longrightarrow>
           fst (Guard_Do rt g ctx fn w) =
             fst (guard_retried rt g ctx fn (w1\<lparr>bulkheads := (bulkheads w1)(q := the (sem_send (bulkheads w1 q)))\<rparr>)))"
proof -
  have G: "Guard_Do rt g ctx fn w = Bulkhead_Do rt ctx q (guard_retried rt g ctx fn) w"
    using assms(1) by (simp add: Guard_Do_def)
  have keeps: "\<forall>v. fst (guard_retried rt g ctx fn v) \<noteq> Blocks
      \<and> bulkheads (snd (guard_retried rt g ctx fn v)) q = bulkheads v q"
    using guard_retried_keeps [OF assms(2,3)] by blast
  show ?thesis
  proof (cases "select_resumes rt ctx q w")
    case None
    then show ?thesis using select_resumes_None [OF assms(4) None] by (simp add: G Bulkhead_Do_def)
  next
    case (Some w1)
    show ?thesis
      unfolding Some option.case G using Bulkhead_Do_keeps_slot [OF keeps Some] cancelled_at [OF assms(4) Some] by blast
  qed
qed

text \<open>A full bulkhead and a context that ends at 9: the call waits until then.\<close>

theorem guard_gives_slot_back_witness:
  "Guard_Do runtime0 (guard0 (Some 2) 3) \<lparr>done_at = Some 9, ctx_err = ErrOpen\<rparr> (\<lambda>w. (Panics ''boom'', w))
     (world0\<lparr>bulkheads := (\<lambda>_. \<lparr>sem_cap = 1, sem_len = 1\<rparr>)\<rparr>)
   = (Returns (Some ErrOpen), world0\<lparr>bulkheads := (\<lambda>_. \<lparr>sem_cap = 1, sem_len = 1\<rparr>), now_at := 9\<rparr>)"
proof -
  let ?w = "world0\<lparr>bulkheads := (\<lambda>_. \<lparr>sem_cap = 1, sem_len = 1\<rparr>)\<rparr>" and ?ctx = "\<lparr>done_at = Some 9, ctx_err = ErrOpen\<rparr>"
  have "keeps_slots 2 runtime0 ((plain_policy 3 10 100)\<lparr>sleep := None\<rparr>)"
    by (simp add: keeps_slots_def quiet_def sleep_of_def plain_policy_def rng_of_def runtime0_def
        worth_retrying_def sleepCtx_def Let_def split: option.split)
  moreover have "wakes runtime0"
    by (auto simp: wakes_def runtime0_def select_ready_def ctx_done_def split: option.split)
  moreover have "select_resumes runtime0 ?ctx 2 ?w = Some (?w\<lparr>now_at := 9\<rparr>)"
    by (simp add: select_resumes_def select_ready_def ctx_done_def sem_send_def runtime0_def world0_def)
  ultimately show ?thesis
    using guard_gives_slot_back [of "guard0 (Some 2) 3" 2 "\<lambda>w. (Panics ''boom'', w)" runtime0 ?ctx ?w]
    by (simp add: guard0_def sem_send_def)
qed

end
