(* ===== verification/Res_BreakerRace.thy ===== *)
theory Res_BreakerRace
  imports Res_World
begin

text \<open>
  \<open>Breaker.Do\<close> of \<^verbatim>\<open>src/resilience/resilience.go\<close> in any number of goroutines on one breaker.
  The method takes the mutex twice, in \<open>Allow\<close> and in \<open>Record\<close>, and holds it neither during
  \<open>fn\<close> nor between the two: a result may be recorded in another state of the breaker than the
  one that admitted the call. The theory has one rule per critical section and per way in
  which \<open>fn\<close> can end.
\<close>

section \<open>Goroutines in Breaker.Do\<close>

text \<open>
  \<open>Before\<close>: not yet in \<open>Do\<close>; \<open>InCall\<close>: admitted and in \<open>fn\<close>; \<open>ToRecord\<close>: \<open>fn\<close> has returned;
  \<open>After\<close>: \<open>Do\<close> has returned (with \<open>ErrOpen\<close> when it was rejected); \<open>Unwound\<close>: \<open>fn\<close> has
  panicked, which leaves \<open>Do\<close> without a \<open>Record\<close>.
\<close>

datatype dpc = Before | InCall | ToRecord "goerror option" | After "goerror option" | Unwound

record dsys =
  shared :: Breaker
  clock :: instant
  dpcs :: "nat \<Rightarrow> dpc"

definition dmove :: "dsys \<Rightarrow> nat \<Rightarrow> dpc \<Rightarrow> dsys" where
  "dmove s i p = s\<lparr>dpcs := (dpcs s)(i := p)\<rparr>"

definition do_enter :: "nat \<Rightarrow> dsys \<Rightarrow> dsys" where
  "do_enter i s =
     (let (ok, b) = Breaker_Allow (clock s) (shared s)
      in dmove (s\<lparr>shared := b\<rparr>) i (if ok then InCall else After (Some ErrOpen)))"

definition do_record :: "nat \<Rightarrow> goerror option \<Rightarrow> dsys \<Rightarrow> dsys" where
  "do_record i r s = dmove (s\<lparr>shared := Breaker_Record (clock s) (r = None) (shared s)\<rparr>) i (After r)"

inductive do_step :: "dsys \<Rightarrow> dsys \<Rightarrow> bool" where
  tick: "clock s \<le> t \<Longrightarrow> do_step s (s\<lparr>clock := t\<rparr>)"
| observe: "do_step s (s\<lparr>shared := snd (Breaker_State (clock s) (shared s))\<rparr>)"
| enter: "dpcs s i = Before \<Longrightarrow> do_step s (do_enter i s)"
| returns: "dpcs s i = InCall \<Longrightarrow> do_step s (dmove s i (ToRecord r))"
| panics: "dpcs s i = InCall \<Longrightarrow> do_step s (dmove s i Unwound)"
| recorded: "dpcs s i = ToRecord r \<Longrightarrow> do_step s (do_record i r s)"
| again: "dpcs s i = After r \<or> dpcs s i = Unwound \<Longrightarrow> do_step s (dmove s i Before)"

definition do_start :: "dsys \<Rightarrow> bool" where
  "do_start s \<longleftrightarrow> breaker_new (shared s) \<and> (\<forall>i. dpcs s i = Before)"

text \<open>Steps that record no failure.\<close>

definition calm_step :: "dsys \<Rightarrow> dsys \<Rightarrow> bool" where
  "calm_step s t \<longleftrightarrow> do_step s t \<and> (\<forall>i e. dpcs s i = ToRecord (Some e) \<longrightarrow> t \<noteq> do_record i (Some e) s)"

definition in_call :: "dsys \<Rightarrow> nat set" where
  "in_call s = {i. dpcs s i = InCall}"

definition do_inv :: "dsys \<Rightarrow> bool" where
  "do_inv s \<longleftrightarrow> breaker_inv (shared s) \<and> (bstate (shared s) = StateOpen \<longrightarrow> openedAt (shared s) \<le> clock s)"

section \<open>Lemmas\<close>

lemma dmove_simps [simp]:
  "shared (dmove s i p) = shared s" "clock (dmove s i p) = clock s" "dpcs (dmove s i p) = (dpcs s)(i := p)"
  by (simp_all add: dmove_def)

lemma do_enter_simps [simp]:
  "shared (do_enter i s) = maybeHalfOpenLocked (clock s) (shared s)"
  "clock (do_enter i s) = clock s"
  "dpcs (do_enter i s) = (dpcs s)(i :=
     if bstate (maybeHalfOpenLocked (clock s) (shared s)) \<noteq> StateOpen then InCall else After (Some ErrOpen))"
  by (simp_all add: do_enter_def Breaker_Allow_def Let_def)

lemma do_record_simps [simp]:
  "shared (do_record i r s) = Breaker_Record (clock s) (r = None) (shared s)"
  "clock (do_record i r s) = clock s" "dpcs (do_record i r s) = (dpcs s)(i := After r)"
  by (simp_all add: do_record_def)

lemma observed [simp]: "snd (Breaker_State now b) = maybeHalfOpenLocked now b"
  by (simp add: Breaker_State_def Let_def)

lemma tick_opened [simp]: "openedAt (maybeHalfOpenLocked now b) = openedAt b"
  by (simp add: maybeHalfOpenLocked_def)

lemma tick_open: "bstate (maybeHalfOpenLocked now b) = StateOpen \<Longrightarrow> bstate b = StateOpen"
  by (simp add: maybeHalfOpenLocked_def split: if_splits)

lemma tick_stays_open:
  assumes "breaker_inv b" and "bstate b = StateOpen" and "now < openedAt b + resetTimeout b"
  shows "maybeHalfOpenLocked now b = b"
  using Breaker_Allow_open [OF assms] by (simp add: Breaker_Allow_def Let_def)

lemma record_open:
  "bstate b = StateOpen \<Longrightarrow>
     bstate (Breaker_Record now ok b) = StateOpen
   \<and> (openedAt (Breaker_Record now ok b) = openedAt b \<or> openedAt (Breaker_Record now ok b) = now)"
  by (simp add: breaker_defs)

lemma record_opened:
  "bstate (Breaker_Record now ok b) = StateOpen \<Longrightarrow>
     openedAt (Breaker_Record now ok b) = now
   \<or> bstate b = StateOpen \<and> openedAt (Breaker_Record now ok b) = openedAt b"
  by (auto simp: breaker_defs split: if_splits)

lemma do_inv_start: "do_start s \<Longrightarrow> do_inv s"
  by (auto simp: do_start_def do_inv_def breaker_new_def breaker_inv_new) (simp add: NewBreaker_def)

lemma do_inv_step: "do_step s t \<Longrightarrow> do_inv s \<Longrightarrow> do_inv t"
proof (induction rule: do_step.induct)
  case (recorded s i r)
  then show ?case
    using record_opened [of "clock s" "r = None" "shared s"] by (auto simp: do_inv_def breaker_inv_record)
qed (auto simp: do_inv_def breaker_inv_tick dest: tick_open)

interpretation do_sys: step_system do_start do_step do_inv
  by unfold_locales (auto intro: do_inv_start do_inv_step)

lemma clock_step: "do_step s t \<Longrightarrow> clock s \<le> clock t"
  by (induction rule: do_step.induct) auto

text \<open>One step of an open breaker before its reset: it stays open, at the earliest since the same
  instant, and no goroutine enters \<open>fn\<close>.\<close>

lemma open_step:
  assumes "do_step s t" and "do_inv s" and "bstate (shared s) = StateOpen"
    and "clock s < openedAt (shared s) + resetTimeout (shared s)"
  shows "bstate (shared t) = StateOpen \<and> openedAt (shared s) \<le> openedAt (shared t)
    \<and> resetTimeout (shared t) = resetTimeout (shared s) \<and> in_call t \<subseteq> in_call s"
proof -
  have "breaker_inv (shared s)" and o: "openedAt (shared s) \<le> clock s"
    using assms(2,3) by (simp_all add: do_inv_def)
  then have m: "maybeHalfOpenLocked (clock s) (shared s) = shared s"
    using tick_stays_open assms(3,4) by blast
  show ?thesis
    using assms(1) m o assms(3)
  proof cases
    case (recorded i r)
    then show ?thesis
      using record_open [OF assms(3), of "clock s" "r = None"] o by (auto simp: in_call_def)
  qed (auto simp: in_call_def)
qed

lemma open_steps:
  assumes "do_step\<^sup>*\<^sup>* s t" and "do_inv s" and "bstate (shared s) = StateOpen"
    and "clock t < openedAt (shared s) + resetTimeout (shared s)"
  shows "do_inv t \<and> bstate (shared t) = StateOpen \<and> openedAt (shared s) \<le> openedAt (shared t)
    \<and> resetTimeout (shared t) = resetTimeout (shared s) \<and> in_call t \<subseteq> in_call s"
  using assms(1,4)
proof (induction rule: rtranclp_induct)
  case (step t u)
  have "clock t < openedAt (shared s) + resetTimeout (shared s)"
    using clock_step [OF step.hyps(2)] step.prems by simp
  then have t: "do_inv t" "bstate (shared t) = StateOpen" "openedAt (shared s) \<le> openedAt (shared t)"
      "resetTimeout (shared t) = resetTimeout (shared s)" "in_call t \<subseteq> in_call s"
      "clock t < openedAt (shared t) + resetTimeout (shared t)"
    using step.IH by auto
  from open_step [OF step.hyps(2) t(1,2,6)] t do_inv_step [OF step.hyps(2) t(1)] show ?case by auto
qed (use assms in simp)

text \<open>A run that records no failure opens no breaker: if it is open at the end it has been open since
  the same instant from the start.\<close>

lemma calm_run_steps: "calm_step\<^sup>*\<^sup>* s t \<Longrightarrow> do_step\<^sup>*\<^sup>* s t"
  by (rule rtranclp_mono [THEN predicate2D]) (auto simp: calm_step_def)

lemma calm_open:
  assumes "calm_step s t" and "bstate (shared t) = StateOpen"
  shows "bstate (shared s) = StateOpen \<and> openedAt (shared t) = openedAt (shared s)
    \<and> resetTimeout (shared t) = resetTimeout (shared s)"
proof -
  have "do_step s t" and calm: "\<And>i e. dpcs s i = ToRecord (Some e) \<Longrightarrow> t \<noteq> do_record i (Some e) s"
    using assms(1) by (simp_all add: calm_step_def)
  from this(1) show ?thesis
  proof cases
    case (recorded i r)
    with calm have "r = None" by (cases r) auto
    with recorded assms(2) show ?thesis by (auto simp: breaker_defs split: if_splits)
  qed (use assms(2) in \<open>auto dest: tick_open\<close>)
qed

lemma calm_run_open:
  assumes "calm_step\<^sup>*\<^sup>* s t" and "bstate (shared t) = StateOpen"
  shows "bstate (shared s) = StateOpen \<and> openedAt (shared t) = openedAt (shared s)
    \<and> resetTimeout (shared t) = resetTimeout (shared s)"
  using assms by (induction rule: rtranclp_induct) (auto dest: calm_open)

text \<open>Failures recorded on an open breaker.\<close>

lemma late_failures:
  assumes "breaker_inv b" and "bstate b = StateOpen" and "int (length ts) < failureThreshold b - failures b"
  shows "circuit_of (fold (\<lambda>t. Breaker_Record t False) ts b) = Open (openedAt b) (nat (failures b) + length ts)
    \<and> breaker_inv (fold (\<lambda>t. Breaker_Record t False) ts b)"
  using assms(3)
proof (induction ts rule: rev_induct)
  case Nil
  then show ?case using assms by (simp add: circuit_of_def)
next
  case (snoc t ts)
  let ?b = "fold (\<lambda>t. Breaker_Record t False) ts b"
  have ft: "failureThreshold ?b = failureThreshold b" by (induction ts rule: rev_induct) simp_all
  have "0 \<le> failures b" using assms(1) by (simp add: breaker_inv_def)
  with snoc show ?case
    using refine_record [of ?b t False] breaker_inv_record [of ?b t False] by (simp add: ft)
qed

text \<open>The two views of \<open>Do\<close> agree: the call of one goroutine as a whole (\<open>Breaker_Do\<close> in \<open>Res_World\<close>)
  is a run of the step relation, when \<open>fn\<close> returns and does not itself use the breaker.\<close>

lemma whole_call_is_run:
  assumes "dpcs s i = Before" and "shared s = breakers w p" and "clock s = now_at w"
    and fn: "\<forall>v. \<exists>r v'. fn v = (Returns r, v') \<and> breakers v' p = breakers v p \<and> now_at v \<le> now_at v'"
  shows "\<exists>t r. do_step\<^sup>*\<^sup>* s t \<and> fst (Breaker_Do p fn w) = Returns r \<and> dpcs t = (dpcs s)(i := After r)
    \<and> shared t = breakers (snd (Breaker_Do p fn w)) p"
proof -
  let ?b = "maybeHalfOpenLocked (clock s) (shared s)" and ?s = "do_enter i s"
  have e: "do_step s ?s" using assms(1) by (rule enter)
  show ?thesis
  proof (cases "bstate ?b = StateOpen")
    case True
    then have "Breaker_Do p fn w = (Returns (Some ErrOpen), w\<lparr>breakers := (breakers w)(p := ?b)\<rparr>)"
      using assms(2,3) by (simp add: Breaker_Do_def on_breaker_def Breaker_Allow_def Let_def)
    with True e show ?thesis by (intro exI [of _ ?s] exI [of _ "Some ErrOpen"]) auto
  next
    case False
    let ?w1 = "w\<lparr>breakers := (breakers w)(p := ?b)\<rparr>"
    obtain r w2 where r: "fn ?w1 = (Returns r, w2)" "breakers w2 p = ?b" "now_at w \<le> now_at w2"
      using spec [OF fn, of ?w1] by auto
    let ?u = "(dmove ?s i (ToRecord r))\<lparr>clock := now_at w2\<rparr>"
    have "do_step ?s (dmove ?s i (ToRecord r))" using False by (intro returns) simp
    moreover have "do_step (dmove ?s i (ToRecord r)) ?u" using r(3) assms(3) by (intro tick) simp
    moreover have "do_step ?u (do_record i r ?u)" by (rule recorded) simp
    ultimately have "do_step\<^sup>*\<^sup>* s (do_record i r ?u)" using e by (meson converse_rtranclp_into_rtranclp rtranclp.rtrancl_refl)
    moreover have "Breaker_Do p fn w = (Returns r, w2\<lparr>breakers := (breakers w2)(p := Breaker_Record (now_at w2) (r = None) ?b)\<rparr>)"
      using False r assms(2,3) by (simp add: Breaker_Do_def on_breaker_def Breaker_Allow_def Let_def)
    ultimately show ?thesis by (intro exI [of _ "do_record i r ?u"] exI [of _ r]) simp
  qed
qed

text \<open>A run in which two calls are admitted and the first one fails, which opens the breaker.\<close>

definition demo_start :: dsys where
  "demo_start = \<lparr>shared = NewBreaker 1 1 60, clock = 0, dpcs = (\<lambda>_. Before)\<rparr>"

definition demo_open :: dsys where
  "demo_open = do_record 0 (Some ErrOpen) (dmove (do_enter 1 (do_enter 0 demo_start)) 0 (ToRecord (Some ErrOpen)))"

lemma demo_started: "do_start demo_start"
proof -
  have "breaker_new (NewBreaker 1 1 60)"
    unfolding breaker_new_def by (intro exI [of _ 1] exI [of _ 60]) (simp add: is_i64_def)
  then show ?thesis by (simp add: do_start_def demo_start_def)
qed

lemma demo_state:
  "shared demo_open = (NewBreaker 1 1 60)\<lparr>bstate := StateOpen, openedAt := 0\<rparr>"
  "clock demo_open = 0" "dpcs demo_open = (\<lambda>_. Before)(0 := After (Some ErrOpen), 1 := InCall)"
  by (auto simp: demo_open_def demo_start_def breaker_defs NewBreaker_def i64_def fun_eq_iff)

lemma demo_run: "do_step\<^sup>*\<^sup>* demo_start demo_open"
proof -
  let ?s1 = "do_enter 0 demo_start" and ?s2 = "do_enter 1 (do_enter 0 demo_start)"
  have "do_step demo_start ?s1" and "do_step ?s1 ?s2"
    by (rule enter; simp add: demo_start_def)+
  moreover have "do_step ?s2 (dmove ?s2 0 (ToRecord (Some ErrOpen)))"
    by (rule returns) (simp add: demo_start_def maybeHalfOpenLocked_def NewBreaker_def)
  moreover have "do_step (dmove ?s2 0 (ToRecord (Some ErrOpen))) demo_open"
    unfolding demo_open_def by (rule recorded) simp
  ultimately show ?thesis by (blast intro: converse_rtranclp_into_rtranclp)
qed

section \<open>Properties\<close>

text \<open>C11: an open breaker drains. In every interleaving of goroutines in \<open>Do\<close>, from a reachable
  state in which the breaker is open, and until the reset timeout has passed since it opened,
  the breaker stays open, no goroutine enters \<open>fn\<close> (those inside it are among those that were
  inside it), and each new call would be rejected with \<open>ErrOpen\<close>, whatever results the calls
  admitted earlier record in the meantime.\<close>

theorem open_breaker_drains:
  assumes "do_start s0" and "do_step\<^sup>*\<^sup>* s0 s" and "bstate (shared s) = StateOpen"
    and "do_step\<^sup>*\<^sup>* s t" and "clock t < openedAt (shared s) + resetTimeout (shared s)"
  shows "bstate (shared t) = StateOpen \<and> in_call t \<subseteq> in_call s
    \<and> dpcs (do_enter i t) i = After (Some ErrOpen)"
proof -
  have "do_inv s" using do_sys.inv_reachable assms(1,2) by blast
  from open_steps [OF assms(4) this assms(3,5)]
  have *: "do_inv t" "bstate (shared t) = StateOpen" "clock t < openedAt (shared t) + resetTimeout (shared t)"
    "in_call t \<subseteq> in_call s"
    using assms(5) by auto
  then have "maybeHalfOpenLocked (clock t) (shared t) = shared t"
    by (intro tick_stays_open) (simp_all add: do_inv_def)
  with * show ?thesis by simp
qed

theorem open_breaker_drains_witness:
  "bstate (shared (demo_open\<lparr>clock := 50\<rparr>)) = StateOpen \<and> in_call (demo_open\<lparr>clock := 50\<rparr>) \<subseteq> in_call demo_open
   \<and> dpcs (do_enter 7 (demo_open\<lparr>clock := 50\<rparr>)) 7 = After (Some ErrOpen)"
  by (rule open_breaker_drains [OF demo_started demo_run])
    (auto simp: demo_state NewBreaker_def intro!: tick r_into_rtranclp)

text \<open>C17: no goroutine is shut out for good. From a reachable state, in every run in which no
  failure is recorded, whatever else the goroutines do (late successes, panics and rejected
  calls included), the next goroutine that calls \<open>Do\<close> once the reset timeout has passed is
  admitted, and if the breaker was not open it is admitted at any time. (A recorded failure can
  start a new open period.)\<close>

theorem breaker_admits_again:
  assumes "do_start s0" and "do_step\<^sup>*\<^sup>* s0 s" and "calm_step\<^sup>*\<^sup>* s t"
    and "bstate (shared s) = StateOpen \<longrightarrow> openedAt (shared s) + resetTimeout (shared s) \<le> clock t"
  shows "dpcs (do_enter i t) = (dpcs t)(i := InCall)"
proof -
  have "breaker_inv (shared t)"
    using do_sys.inv_reachable [OF assms(1)] rtranclp_trans [OF assms(2) calm_run_steps [OF assms(3)]]
    by (simp add: do_inv_def)
  moreover have "openedAt (shared t) + resetTimeout (shared t) \<le> clock t" if "bstate (shared t) = StateOpen"
    using calm_run_open [OF assms(3) that] assms(4) by simp
  ultimately have "bstate (maybeHalfOpenLocked (clock t) (shared t)) \<noteq> StateOpen"
    using time_Sub_ge_iff [of "resetTimeout (shared t)" "clock t" "openedAt (shared t)"]
    by (auto simp: maybeHalfOpenLocked_def breaker_inv_def)
  then show ?thesis by simp
qed

theorem breaker_admits_again_witness:
  "dpcs (do_enter 7 (demo_open\<lparr>clock := 60\<rparr>)) = (dpcs (demo_open\<lparr>clock := 60\<rparr>))(7 := InCall)"
proof (rule breaker_admits_again [OF demo_started demo_run])
  have "calm_step demo_open (demo_open\<lparr>clock := 60\<rparr>)"
    by (auto simp: calm_step_def demo_state split: if_splits intro!: tick)
  then show "calm_step\<^sup>*\<^sup>* demo_open (demo_open\<lparr>clock := 60\<rparr>)" by blast
qed (simp add: demo_state NewBreaker_def)

text \<open>C33: failures of calls that were admitted before the breaker opened keep counting while it
  is open, and when they reach the threshold the open period starts again: up to that failure
  the breaker is open since the same instant, with it since the instant of the failure, so
  calls are rejected for longer than the reset timeout.\<close>

theorem late_failures_prolong_open:
  assumes "breaker_inv b" and "bstate b = StateOpen"
    and "int (length ts) + 1 = failureThreshold b - failures b"
  defines "b1 \<equiv> fold (\<lambda>t. Breaker_Record t False) ts b"
  shows "bstate b1 = StateOpen \<and> openedAt b1 = openedAt b
    \<and> circuit_of (Breaker_Record now False b1) = Open now 0
    \<and> (u < now + resetTimeout b \<longrightarrow> \<not> fst (Breaker_Allow u (Breaker_Record now False b1)))"
proof -
  have b1: "circuit_of b1 = Open (openedAt b) (nat (failures b) + length ts)" "breaker_inv b1"
    using late_failures [OF assms(1,2), of ts] assms(3) by (simp_all add: b1_def)
  have th: "failureThreshold b1 = failureThreshold b" "resetTimeout b1 = resetTimeout b"
    unfolding b1_def by (induction ts rule: rev_induct) simp_all
  have "0 \<le> failures b" using assms(1) by (simp add: breaker_inv_def)
  then have "nat (failureThreshold b) = Suc (nat (failures b) + length ts)" using assms(3) by simp
  then have r: "circuit_of (Breaker_Record now False b1) = Open now 0"
    using refine_record [OF b1(2), of now False] b1(1) th by simp
  have "\<not> fst (Breaker_Allow u (Breaker_Record now False b1))" if "u < now + resetTimeout b"
    using Breaker_Allow_open [OF breaker_inv_record [OF b1(2), of now False], of u] r that th
    by (auto simp: circuit_of_def split: State.splits)
  with b1(1) r show ?thesis by (auto simp: circuit_of_def split: State.splits)
qed

theorem late_failures_prolong_open_witness:
  "circuit_of (Breaker_Record 50 False (shared demo_open)) = Open 50 0
   \<and> \<not> fst (Breaker_Allow 100 (Breaker_Record 50 False (shared demo_open)))"
proof -
  have "breaker_inv (shared demo_open)"
    using do_sys.inv_reachable [OF demo_started demo_run] by (simp add: do_inv_def)
  from late_failures_prolong_open [OF this, of "[]" 50 100] show ?thesis
    by (simp add: demo_state NewBreaker_def)
qed

end
