(* ===== verification/Spi_Lifecycle.thy ===== *)
theory Spi_Lifecycle
  imports Go_Base
begin

text \<open>
  Package \<^verbatim>\<open>spi\<close> (\<^verbatim>\<open>src/spi/lifecycle.go\<close>, \<^verbatim>\<open>src/spi/evaluator.go\<close>): the contracts between a
  unit and the engine that runs it. A Go interface is a record of its methods; a method is a
  function of its arguments and of the world \<open>'w\<close>, and \<open>'v\<close> is the type \<open>any\<close>. A
  \<^verbatim>\<open>map[string]any\<close> may be nil, which is \<open>None\<close>. The engine and the implementations of the
  accessors are not in this repository.
\<close>

type_synonym 'v args = "(string \<rightharpoonup> 'v) option"

section \<open>Context accessors\<close>

record TenantRef =
  OrgID :: string
  ProjectID :: string

record 'v LogField =
  lfKey :: string
  lfValue :: 'v

record ('w, 'v) Logger =
  Logger_Debug :: "string \<Rightarrow> 'v LogField list \<Rightarrow> 'w \<Rightarrow> 'w"
  Logger_Info :: "string \<Rightarrow> 'v LogField list \<Rightarrow> 'w \<Rightarrow> 'w"
  Logger_Warn :: "string \<Rightarrow> 'v LogField list \<Rightarrow> 'w \<Rightarrow> 'w"
  Logger_Error :: "string \<Rightarrow> 'v LogField list \<Rightarrow> 'w \<Rightarrow> 'w"

record 'v TraceAttr =
  taKey :: string
  taValue :: 'v

typedecl SpanEndOption

record ('w, 'v) Span =
  Span_End :: "SpanEndOption list \<Rightarrow> 'w \<Rightarrow> 'w"
  Span_SetAttributes :: "'v TraceAttr list \<Rightarrow> 'w \<Rightarrow> 'w"
  Span_RecordError :: "goerror option \<Rightarrow> 'w \<Rightarrow> 'w"

record ('w, 'v) Tracer =
  Tracer_Start :: "go_context \<Rightarrow> string \<Rightarrow> 'v TraceAttr list \<Rightarrow> 'w \<Rightarrow> (go_context \<times> ('w, 'v) Span) \<times> 'w"

record ('w, 'v) StateAccessor =
  State_Get :: "string \<Rightarrow> 'w \<Rightarrow> 'v option \<times> 'w"
  State_Set :: "string \<Rightarrow> 'v \<Rightarrow> 'w \<Rightarrow> goerror option \<times> 'w"
  State_Delete :: "string \<Rightarrow> 'w \<Rightarrow> goerror option \<times> 'w"

record CredentialPayload =
  cpType :: string
  cpData :: "(string \<rightharpoonup> string) option"
  cpExpiresAt :: int

record 'w CredentialAccessor =
  Credential_Get :: "string \<Rightarrow> 'w \<Rightarrow> (CredentialPayload \<times> goerror option) \<times> 'w"

record ('w, 'v) LifecycleContext =
  Context :: go_context
  RunID :: string
  NodeID :: string
  UnitID :: string
  UnitVersion :: string
  Tenant :: TenantRef
  Logger :: "('w, 'v) Logger"
  Tracer :: "('w, 'v) Tracer"
  StateOf :: "('w, 'v) StateAccessor"
  Credentials :: "'w CredentialAccessor"

record ('w, 'v) Evaluator =
  Eval :: "string \<Rightarrow> 'v args \<Rightarrow> 'w \<Rightarrow> ('v option \<times> goerror option) \<times> 'w"
  EvalBool :: "string \<Rightarrow> 'v args \<Rightarrow> 'w \<Rightarrow> (bool \<times> goerror option) \<times> 'w"
  Interpolate :: "string \<Rightarrow> 'v args \<Rightarrow> 'w \<Rightarrow> (string \<times> goerror option) \<times> 'w"

section \<open>Lifecycle hooks\<close>

record ('w, 'v, 'c) Lifecycle =
  OnInit :: "'c \<Rightarrow> 'w \<Rightarrow> goerror option \<times> 'w"
  OnProcessParameters :: "'c \<Rightarrow> 'v args \<Rightarrow> 'w \<Rightarrow> ('v args \<times> goerror option) \<times> 'w"
  OnExecute :: "'c \<Rightarrow> 'v args \<Rightarrow> 'w \<Rightarrow> ('v args \<times> goerror option) \<times> 'w"
  OnFinalize :: "'c \<Rightarrow> 'v args \<Rightarrow> goerror option \<Rightarrow> 'w \<Rightarrow> 'w"

definition DefaultLifecycle :: "('w, 'v, 'c) Lifecycle" where
  "DefaultLifecycle =
     \<lparr>OnInit = (\<lambda>ctx w. (None, w)),
      OnProcessParameters = (\<lambda>ctx a w. ((a, None), w)),
      OnExecute = (\<lambda>ctx a w. ((None, None), w)),
      OnFinalize = (\<lambda>ctx out runErr w. w)\<rparr>"

end
