(* ===== verification/Events_Model.thy ===== *)
theory Events_Model
  imports Go_Base
begin

text \<open>
  Package \<^verbatim>\<open>events\<close> (\<^verbatim>\<open>src/events/cloudevent.go\<close>): the CloudEvents envelope, its constructor
  and the canonical event types. \<open>json.Marshal\<close> of the payload is the parameter \<open>marshal\<close>
  (an error or the JSON text), the reading of the clock is the argument \<open>now\<close>. The JSON form
  of an envelope is the list of members that the struct tags select, in the order of the
  fields.
\<close>

section \<open>The envelope\<close>

definition SpecVersion :: string where "SpecVersion = ''1.0''"

record CloudEvent =
  evSpecVersion :: string
  evID :: string
  evSource :: string
  evType :: string
  evSubject :: string
  evTime :: instant
  evDataContentType :: string
  evData :: "string option"

definition zero_CloudEvent :: CloudEvent where
  "zero_CloudEvent =
     \<lparr>evSpecVersion = [], evID = [], evSource = [], evType = [], evSubject = [],
      evTime = zero_Time, evDataContentType = [], evData = None\<rparr>"

definition events_New ::
  "('v \<Rightarrow> goerror + string) \<Rightarrow> instant \<Rightarrow> string \<Rightarrow> string \<Rightarrow> string \<Rightarrow> string \<Rightarrow> 'v option \<Rightarrow>
   CloudEvent \<times> goerror option" where
  "events_New marshal now i source eventType subject data =
     (let build = (\<lambda>raw.
            (\<lparr>evSpecVersion = SpecVersion, evID = i, evSource = source, evType = eventType,
              evSubject = subject, evTime = now, evDataContentType = ''application/json'',
              evData = raw\<rparr>, None))
      in case data of
           None \<Rightarrow> build None
         | Some d \<Rightarrow>
             (case marshal d of
                Inl err \<Rightarrow> (zero_CloudEvent, Some err)
              | Inr b \<Rightarrow> build (Some b)))"

text \<open>
  The members of the JSON object: a string, an instant or raw JSON text. Those tagged
  \<open>omitempty\<close> are left out when the string is empty or the raw text has length zero.
\<close>

datatype json_value = JString string | JTime instant | JRaw string

definition omitempty :: "string \<Rightarrow> (string \<Rightarrow> json_value) \<Rightarrow> string \<Rightarrow> (string \<times> json_value) list" where
  "omitempty k f s = (if s = [] then [] else [(k, f s)])"

definition CloudEvent_members :: "CloudEvent \<Rightarrow> (string \<times> json_value) list" where
  "CloudEvent_members e =
     [(''specversion'', JString (evSpecVersion e)), (''id'', JString (evID e)),
      (''source'', JString (evSource e)), (''type'', JString (evType e))]
     @ omitempty ''subject'' JString (evSubject e)
     @ [(''time'', JTime (evTime e))]
     @ omitempty ''datacontenttype'' JString (evDataContentType e)
     @ omitempty ''data'' JRaw (case evData e of None \<Rightarrow> [] | Some b \<Rightarrow> b)"

section \<open>Canonical event types\<close>

definition TypeIAMOrgCreated :: string where "TypeIAMOrgCreated = ''com.plugfy.iam.org.created''"
definition TypeIAMGrantChanged :: string where "TypeIAMGrantChanged = ''com.plugfy.iam.grant.changed''"
definition TypeIAMUserInvited :: string where "TypeIAMUserInvited = ''com.plugfy.iam.user.invited''"
definition TypeRuntimeScheduled :: string where "TypeRuntimeScheduled = ''com.plugfy.runtime.instance.scheduled''"
definition TypeRuntimeReady :: string where "TypeRuntimeReady = ''com.plugfy.runtime.instance.ready''"
definition TypeRuntimeIdle :: string where "TypeRuntimeIdle = ''com.plugfy.runtime.instance.idle''"
definition TypeRuntimeStopped :: string where "TypeRuntimeStopped = ''com.plugfy.runtime.instance.stopped''"
definition TypeAgentRunStarted :: string where "TypeAgentRunStarted = ''com.plugfy.agent.run.started''"
definition TypeAgentRunStep :: string where "TypeAgentRunStep = ''com.plugfy.agent.run.step''"
definition TypeAgentRunCompleted :: string where "TypeAgentRunCompleted = ''com.plugfy.agent.run.completed''"
definition TypeGuardrailTriggered :: string where "TypeGuardrailTriggered = ''com.plugfy.agent.guardrail.triggered''"
definition TypeMarketplaceInstall :: string where "TypeMarketplaceInstall = ''com.plugfy.marketplace.app.installed''"
definition TypeJobEnqueued :: string where "TypeJobEnqueued = ''com.plugfy.jobs.job.enqueued''"
definition TypeJobStarted :: string where "TypeJobStarted = ''com.plugfy.jobs.job.started''"
definition TypeJobSucceeded :: string where "TypeJobSucceeded = ''com.plugfy.jobs.job.succeeded''"
definition TypeJobFailed :: string where "TypeJobFailed = ''com.plugfy.jobs.job.failed''"
definition TypeNotificationSent :: string where "TypeNotificationSent = ''com.plugfy.notifications.sent''"
definition TypePlatformAudit :: string where "TypePlatformAudit = ''com.plugfy.platform.audit''"

section \<open>Properties\<close>

text \<open>C40: the envelope that \<open>New\<close> builds. It fails exactly when there is a payload whose encoding
  fails, and then the event is the zero value and the error that of the encoder. Otherwise
  the JSON object has exactly these members, in this order: the version 1.0, the id, source
  and type as given, the subject when one is given, the time, the content type
  \<^verbatim>\<open>application/json\<close>, and the encoding of the payload when there is one. (The encoder returns
  a JSON text, which is not empty.)\<close>

theorem events_New_envelope:
  fixes marshal :: "'v \<Rightarrow> goerror + string"
    and i source eventType subject :: string and now :: instant and data :: "'v option"
  assumes "\<And>d b. marshal d = Inr b \<Longrightarrow> b \<noteq> []"
  defines "r \<equiv> events_New marshal now i source eventType subject data"
  shows "(\<forall>err. snd r = Some err \<longleftrightarrow> (\<exists>d. data = Some d \<and> marshal d = Inl err))
    \<and> (snd r \<noteq> None \<longrightarrow> fst r = zero_CloudEvent)
    \<and> (snd r = None \<longrightarrow> CloudEvent_members (fst r) =
         [(''specversion'', JString ''1.0''), (''id'', JString i), (''source'', JString source), (''type'', JString eventType)]
         @ (if subject = [] then [] else [(''subject'', JString subject)])
         @ [(''time'', JTime now), (''datacontenttype'', JString ''application/json'')]
         @ (case data of None \<Rightarrow> [] | Some d \<Rightarrow> [(''data'', JRaw (projr (marshal d)))]))"
proof (cases data)
  case None
  then show ?thesis
    by (simp add: r_def events_New_def CloudEvent_members_def omitempty_def SpecVersion_def)
next
  case (Some d)
  show ?thesis
  proof (cases "marshal d")
    case (Inl err)
    then show ?thesis using Some by (auto simp: r_def events_New_def)
  next
    case (Inr b)
    with assms(1) have "b \<noteq> []" by blast
    then show ?thesis
      using Some Inr
      by (simp add: r_def events_New_def CloudEvent_members_def omitempty_def SpecVersion_def)
  qed
qed

theorem events_New_envelope_witness:
  "CloudEvent_members (fst (events_New (\<lambda>b. if b then Inr ''true'' else Inl (ErrsPtr None))
     5 ''01J'' ''/jobs'' TypeJobFailed [] (Some True))) =
     [(''specversion'', JString ''1.0''), (''id'', JString ''01J''), (''source'', JString ''/jobs''), (''type'', JString TypeJobFailed),
      (''time'', JTime 5), (''datacontenttype'', JString ''application/json''), (''data'', JRaw ''true'')]
   \<and> fst (events_New (\<lambda>b. if b then Inr ''true'' else Inl (ErrsPtr None))
     5 ''01J'' ''/jobs'' TypeJobFailed [] (Some False)) = zero_CloudEvent"
proof -
  let ?f = "\<lambda>b. if b then Inr ''true'' else Inl (ErrsPtr None)"
  have ne: "?f d = Inr b \<Longrightarrow> b \<noteq> []" for d b by (auto split: if_splits)
  have "snd (events_New ?f 5 ''01J'' ''/jobs'' TypeJobFailed [] (Some True)) = None"
    and "snd (events_New ?f 5 ''01J'' ''/jobs'' TypeJobFailed [] (Some False)) \<noteq> None"
    by (simp_all add: events_New_def)
  then show ?thesis
    using events_New_envelope [of ?f 5 "''01J''" "''/jobs''" TypeJobFailed "[]" "Some True", OF ne]
      events_New_envelope [of ?f 5 "''01J''" "''/jobs''" TypeJobFailed "[]" "Some False", OF ne]
    by simp
qed

end
