(* ===== verification/Spi_Unit.thy ===== *)
theory Spi_Unit
  imports Spi_Lifecycle Events_Model Go_Float
begin

text \<open>
  Package \<^verbatim>\<open>spi/core\<close> (\<^verbatim>\<open>src/spi/core\<close>): the unit contract and \<open>DefaultUnit\<close>, its embeddable
  implementation. The interface \<open>UnitContext\<close> embeds \<open>LifecycleContext\<close>, so its record extends
  that one's. A handler may be nil (\<open>None\<close>), the handler map of a zero \<open>DefaultUnit\<close> is nil,
  and the receiver, a pointer to the unit, is passed as the unit's state.
\<close>

section \<open>Descriptor (descriptor.go, policy.go)\<close>

type_synonym Event = CloudEvent
type_synonym Kind = string
type_synonym ParamType = string

definition KindTool :: Kind where "KindTool = ''tool''"
definition KindAgent :: Kind where "KindAgent = ''agent''"
definition KindApp :: Kind where "KindApp = ''app''"
definition KindService :: Kind where "KindService = ''service''"
definition KindModule :: Kind where "KindModule = ''module''"
definition KindPlugin :: Kind where "KindPlugin = ''plugin''"
definition KindComponent :: Kind where "KindComponent = ''component''"
definition KindExtension :: Kind where "KindExtension = ''extension''"
definition KindSolution :: Kind where "KindSolution = ''solution''"

definition ParamBoolean :: ParamType where "ParamBoolean = ''boolean''"
definition ParamString :: ParamType where "ParamString = ''string''"
definition ParamInteger :: ParamType where "ParamInteger = ''integer''"
definition ParamFloat :: ParamType where "ParamFloat = ''float''"
definition ParamEnum :: ParamType where "ParamEnum = ''enum''"
definition ParamColor :: ParamType where "ParamColor = ''color''"
definition ParamMultiline :: ParamType where "ParamMultiline = ''multiline''"
definition ParamSDUI :: ParamType where "ParamSDUI = ''sdui''"
definition ParamObject :: ParamType where "ParamObject = ''object''"
definition ParamArray :: ParamType where "ParamArray = ''array''"
definition ParamSecret :: ParamType where "ParamSecret = ''secret''"

definition SysPrefix :: string where "SysPrefix = ''sys.''"
definition SysSeedDemo :: string where "SysSeedDemo = ''sys.seedDemo''"
definition SysDescribe :: string where "SysDescribe = ''sys.describe''"
definition SysMigrate :: string where "SysMigrate = ''sys.migrate''"
definition SysHealth :: string where "SysHealth = ''sys.health''"

record BreakerPolicy =
  bpFailureThreshold :: int
  bpSuccessThreshold :: int
  bpReset :: duration

record BulkheadPolicy =
  bhMax :: int

record DeclaredRetry =
  drMaxAttempts :: int
  drBase :: duration
  drMax :: duration
  drMultiplier :: f64
  drJitter :: f64
  drRetryable :: "string list"
  drBreaker :: "BreakerPolicy option"
  drBulkhead :: "BulkheadPolicy option"

datatype 'v ParamDef = ParamDef
  (pKey: string) (pLabel: string) (pDescription: string) (pType: ParamType)
  (pDefault: "'v option") (pOptions: "string list") (pRequired: bool) (pSecret: bool)
  (pValidate: string) (pItems: "'v ParamDef option") (pFields: "'v ParamDef list")

record 'v MethodDef =
  mName :: string
  mTitle :: string
  mSummary :: string
  mParams :: "'v ParamDef list"
  mReturns :: "'v ParamDef list"
  mRetry :: "DeclaredRetry option"
  mTimeout :: duration
  mIdempotent :: bool
  mStreaming :: bool

record 'v UnitDescriptor =
  dID :: string
  dVersion :: string
  dKind :: Kind
  dTitle :: string
  dDescription :: string
  dMetadata :: "(string \<rightharpoonup> string) option"
  dMethods :: "'v MethodDef list"
  dDefaultPolicy :: "DeclaredRetry option"

definition zero_UnitDescriptor :: "'v UnitDescriptor" where
  "zero_UnitDescriptor =
     \<lparr>dID = [], dVersion = [], dKind = [], dTitle = [], dDescription = [], dMetadata = None,
      dMethods = [], dDefaultPolicy = None\<rparr>"

section \<open>Results and errors (policy.go)\<close>

record 'v Progress =
  Done :: int
  Total :: int
  Percent :: f64
  pgMessage :: string
  Stage :: string
  pgData :: "'v args"

record 'v Result =
  Out :: "'v args"
  Attempts :: int
  rProgress :: "'v Progress"

text \<open>The struct \<open>UnitError\<close> and its methods are in the prelude, with the error values.\<close>

definition ErrMethodNotFound :: "string \<Rightarrow> UnitError" where
  "ErrMethodNotFound m =
     UnitError ''method_not_found'' ''permanent'' (''no such method: '' @ m) None"

text \<open>The conversion of a \<open>*UnitError\<close> to the interface \<open>error\<close>.\<close>

definition unit_as_error :: "UnitError \<Rightarrow> goerror option" where
  "unit_as_error e = Some (UnitErr e)"

section \<open>Units (unit.go, default_unit.go)\<close>

record ('w, 'v) UnitContext = "('w, 'v) LifecycleContext" +
  uMethod :: string
  uDeadline :: "instant option"
  uIdempotencyKey :: string
  uReport :: "'v Progress \<Rightarrow> 'w \<Rightarrow> 'w"
  uEmit :: "Event \<Rightarrow> 'w \<Rightarrow> goerror option \<times> 'w"

type_synonym ('w, 'v) invocation = "('w, 'v) UnitContext \<Rightarrow> 'v args \<Rightarrow> 'w \<Rightarrow> ('v args \<times> goerror option) outcome \<times> 'w"

type_synonym ('w, 'v) Handler = "('w, 'v) invocation option"

record ('w, 'v) Unit =
  Describe :: "'v UnitDescriptor"
  Invoke :: "string \<Rightarrow> ('w, 'v) invocation"

record ('w, 'v) ActivationFinalizer =
  Finalize :: "('w, 'v) UnitContext \<Rightarrow> 'w \<Rightarrow> goerror option \<times> 'w"

record ('w, 'v) Resourceful =
  Acquire :: "('w, 'v) UnitContext \<Rightarrow> 'w \<Rightarrow> (('w, 'v) ActivationFinalizer option \<times> goerror option) \<times> 'w"

record ('w, 'v) OnFinalizer =
  uOnFinalize :: "('w, 'v) UnitContext \<Rightarrow> 'v args \<Rightarrow> goerror option \<Rightarrow> 'w \<Rightarrow> 'v args \<times> 'w"

record ('w, 'v) ParamProcessor =
  uOnProcessParameters :: "('w, 'v) UnitContext \<Rightarrow> 'v args \<Rightarrow> 'w \<Rightarrow> ('v args \<times> goerror option) \<times> 'w"

record ('w, 'v) DefaultUnit =
  Desc :: "'v UnitDescriptor"
  handlers :: "(string \<rightharpoonup> ('w, 'v) Handler) option"

definition zero_DefaultUnit :: "('w, 'v) DefaultUnit" where
  "zero_DefaultUnit = \<lparr>Desc = zero_UnitDescriptor, handlers = None\<rparr>"

definition DefaultUnit_Name :: "('w, 'v) DefaultUnit \<Rightarrow> string" where
  "DefaultUnit_Name b = dID (Desc b)"

definition DefaultUnit_Kind :: "('w, 'v) DefaultUnit \<Rightarrow> Kind" where
  "DefaultUnit_Kind b = dKind (Desc b)"

definition DefaultUnit_Capabilities :: "('w, 'v) DefaultUnit \<Rightarrow> 'v args" where
  "DefaultUnit_Capabilities b = Some Map.empty"

definition DefaultUnit_HealthCheck :: "('w, 'v) DefaultUnit \<Rightarrow> go_context \<Rightarrow> goerror option" where
  "DefaultUnit_HealthCheck b ctx = None"

definition DefaultUnit_Describe :: "('w, 'v) DefaultUnit \<Rightarrow> 'v UnitDescriptor" where
  "DefaultUnit_Describe b = Desc b"

definition DefaultUnit_Method :: "string \<Rightarrow> ('w, 'v) Handler \<Rightarrow> ('w, 'v) DefaultUnit \<Rightarrow> ('w, 'v) DefaultUnit" where
  "DefaultUnit_Method name h b =
     (let b = (if handlers b = None then b\<lparr>handlers := Some Map.empty\<rparr> else b)
      in b\<lparr>handlers := Some ((the (handlers b))(name \<mapsto> h))\<rparr>)"

definition handler_lookup :: "('w, 'v) DefaultUnit \<Rightarrow> string \<Rightarrow> ('w, 'v) Handler option" where
  "handler_lookup b method = (case handlers b of None \<Rightarrow> None | Some m \<Rightarrow> m method)"

definition DefaultUnit_Invoke :: "('w, 'v) DefaultUnit \<Rightarrow> string \<Rightarrow> ('w, 'v) invocation" where
  "DefaultUnit_Invoke b method ctx a w =
     (case handler_lookup b method of
        None \<Rightarrow> (Returns (None, unit_as_error (ErrMethodNotFound method)), w)
      | Some None \<Rightarrow> (Panics ''invalid memory address or nil pointer dereference'', w)
      | Some (Some h) \<Rightarrow> h ctx a w)"

text \<open>A \<open>*DefaultUnit\<close> as a value of the interface \<open>Unit\<close>, and a chain of registrations.\<close>

definition DefaultUnit_as_Unit :: "('w, 'v) DefaultUnit \<Rightarrow> ('w, 'v) Unit" where
  "DefaultUnit_as_Unit b = \<lparr>Describe = DefaultUnit_Describe b, Invoke = DefaultUnit_Invoke b\<rparr>"

abbreviation register_all :: "(string \<times> ('w, 'v) Handler) list \<Rightarrow> ('w, 'v) DefaultUnit \<Rightarrow> ('w, 'v) DefaultUnit" where
  "register_all rs b \<equiv> fold (\<lambda>(n, h). DefaultUnit_Method n h) rs b"

section \<open>The registry contract\<close>

text \<open>
  What dispatch relies on: a registry that starts without entries, and in which a
  registration is found under its name and hides no other.
\<close>

locale method_registry =
  fixes none :: 'u
    and register :: "string \<Rightarrow> 'h \<Rightarrow> 'u \<Rightarrow> 'u"
    and look :: "'u \<Rightarrow> string \<Rightarrow> 'h option"
  assumes look_none: "look none m = None"
    and look_register: "look (register n h u) m = (if m = n then Some h else look u m)"
begin

lemma look_chain: "look (fold (\<lambda>(n, h). register n h) rs u) m =
    (case map_of (rev rs) m of Some h \<Rightarrow> Some h | None \<Rightarrow> look u m)"
  by (induction rs arbitrary: u) (auto simp: look_register map_add_def split: option.splits)

lemma look_all: "look (fold (\<lambda>(n, h). register n h) rs none) m = map_of (rev rs) m"
  by (simp add: look_chain look_none split: option.split)

lemma look_any_order:
  assumes "distinct (map fst rs)" and "distinct (map fst rs')" and "set rs = set rs'"
  shows "look (fold (\<lambda>(n, h). register n h) rs u) = look (fold (\<lambda>(n, h). register n h) rs' u)"
proof -
  have "map_of (rev rs) = map_of (rev rs')"
    using assms by (intro map_of_inject_set [THEN iffD2]) (simp_all add: rev_map [symmetric])
  then show ?thesis by (intro ext) (simp only: look_chain)
qed

end

interpretation du: method_registry zero_DefaultUnit DefaultUnit_Method handler_lookup
  by unfold_locales (simp_all add: handler_lookup_def zero_DefaultUnit_def DefaultUnit_Method_def Let_def split: option.split)

section \<open>Lemmas\<close>

lemma Desc_register [simp]: "Desc (DefaultUnit_Method n h b) = Desc b"
  by (simp add: DefaultUnit_Method_def Let_def)

lemma Desc_register_all [simp]: "Desc (register_all rs b) = Desc b"
  by (induction rs arbitrary: b) auto

lemma zero_no_handlers: "handler_lookup (zero_DefaultUnit\<lparr>Desc := d\<rparr>) m = None"
  by (simp add: handler_lookup_def zero_DefaultUnit_def)

lemma Invoke_lookup:
  "handler_lookup b = handler_lookup b' \<Longrightarrow> DefaultUnit_Invoke b = DefaultUnit_Invoke b'"
  by (intro ext) (simp add: DefaultUnit_Invoke_def)

section \<open>Properties\<close>

text \<open>C38: dispatch of \<open>DefaultUnit\<close>. After any sequence of registrations on a zero value
  with a descriptor set, invoking
  a method runs the handler registered last under exactly that name, with the caller's
  context and arguments; with no registration of the name it returns \<open>ErrMethodNotFound\<close>,
  without effect; and a nil handler panics. Any name can be registered, the reserved ones
  that begin with \<open>sys.\<close> included, and the descriptor is not touched.\<close>

theorem DefaultUnit_dispatch:
  "Invoke (DefaultUnit_as_Unit (register_all rs (zero_DefaultUnit\<lparr>Desc := d\<rparr>))) m ctx a w =
     (case map_of (rev rs) m of
        None \<Rightarrow> (Returns (None, Some (UnitErr (UnitError ''method_not_found'' ''permanent'' (''no such method: '' @ m) None))), w)
      | Some None \<Rightarrow> (Panics ''invalid memory address or nil pointer dereference'', w)
      | Some (Some h) \<Rightarrow> h ctx a w)
   \<and> Describe (DefaultUnit_as_Unit (register_all rs (zero_DefaultUnit\<lparr>Desc := d\<rparr>))) = d"
proof -
  have "handler_lookup (register_all rs (zero_DefaultUnit\<lparr>Desc := d\<rparr>)) m = map_of (rev rs) m"
    by (simp add: du.look_chain zero_no_handlers split: option.split)
  then show ?thesis
    by (simp add: DefaultUnit_as_Unit_def DefaultUnit_Invoke_def DefaultUnit_Describe_def
        unit_as_error_def ErrMethodNotFound_def split: option.split)
qed

text \<open>Registration order does not matter between different names: two chains that register
  the same handlers, each name once, give units that answer every invocation alike.\<close>

lemma DefaultUnit_registration_order:
  assumes "distinct (map fst rs)" and "distinct (map fst rs')" and "set rs = set rs'"
  shows "DefaultUnit_as_Unit (register_all rs b) = DefaultUnit_as_Unit (register_all rs' b)"
proof -
  have "DefaultUnit_Invoke (register_all rs b) = DefaultUnit_Invoke (register_all rs' b)"
    by (rule Invoke_lookup [OF du.look_any_order [OF assms]])
  then show ?thesis by (simp add: DefaultUnit_as_Unit_def DefaultUnit_Describe_def)
qed

end
