(* ===== verification/Abi_Render.thy ===== *)
theory Abi_Render
  imports Main "HOL-Library.Multiset" "HOL-Library.List_Lexorder" "HOL-Library.Char_ord" "HOL-Library.Sublist"
begin

text \<open>
  The ABI gate, first part (\<^verbatim>\<open>src/abi/abi_test.go\<close>): the text of the exported surface and the diff
  that reports drift. A type-checked package is what the gate reads of \<^verbatim>\<open>go/types\<close>: the scope
  with its objects, struct fields, method sets and signatures. How a type is written
  (\<open>types.TypeString\<close> with a qualifier) is the parameter \<open>tstr\<close>. Strings are ordered bytewise,
  as \<open>sort.Strings\<close> does. Identifiers are ASCII, so a name is exported when it starts with a
  capital letter from A to Z.
\<close>

section \<open>Packages as the gate reads them\<close>

datatype gtype = TPointer gtype | TSlice gtype | TOther nat

record gsig =
  sParams :: "gtype list"
  sVariadic :: bool
  sResults :: "gtype list"
  sRecv :: "gtype option"

record gfunc =
  fnName :: string
  fnSig :: gsig

record gfield =
  fdName :: string
  fdType :: gtype
  fdTag :: string
  fdEmbedded :: bool

datatype underlying =
    UStruct "gfield list"
  | UInterface "gfunc list" "gtype list"
  | UOther gtype

text \<open>A type name: the methods are those of the defined type, and absent for an alias.\<close>

record gtypename =
  tnUnderlying :: underlying
  tnMethods :: "gfunc list option"

datatype gobject =
    OConst gtype string
  | OVar gtype
  | OFunc gsig
  | OTypeName gtypename
  | OOther

record gpackage =
  pkgPath :: string
  pkgName :: string
  pkgScope :: "(string \<times> gobject) list"

type_synonym qualifier = "string \<times> string \<Rightarrow> string"
type_synonym type_string = "qualifier \<Rightarrow> gtype \<Rightarrow> string"

definition modulePath :: string where
  "modulePath = ''github.com/PlugfyOS/plugfy.framework.contracts''"

definition surfacePackages :: "string list" where
  "surfacePackages = [''errs'', ''events'', ''idempotency'', ''ids'', ''resilience'', ''spi'', ''spi/core'']"

definition newline :: char where "newline = CHR 0x0A"
definition tab :: char where "tab = CHR 0x09"
definition backtick :: char where "backtick = CHR 0x60"

definition IsExported :: "string \<Rightarrow> bool" where
  "IsExported name = (case name of [] \<Rightarrow> False | c # cs \<Rightarrow> CHR ''A'' \<le> c \<and> c \<le> CHR ''Z'')"

definition TrimPrefix :: "string \<Rightarrow> string \<Rightarrow> string" where
  "TrimPrefix s p = (if prefix p s then drop (length p) s else s)"

section \<open>Rendering\<close>

text \<open>A package is known to a qualifier by its path and its name; the loader's cache makes packages
  with the same path the same object.\<close>

definition qualifier :: "gpackage \<Rightarrow> qualifier" where
  "qualifier this = (\<lambda>(path, name).
     if path = pkgPath this then []
     else if prefix (modulePath @ ''/'') path then TrimPrefix path (modulePath @ ''/'')
     else name)"

fun commas :: "string list \<Rightarrow> string" where
  "commas [] = []"
| "commas [x] = x"
| "commas (x # xs) = x @ '', '' @ commas xs"

definition param_string :: "(gtype \<Rightarrow> string) \<Rightarrow> gsig \<Rightarrow> nat \<Rightarrow> string" where
  "param_string ts sig i =
     (let t = sParams sig ! i
      in if sVariadic sig \<and> Suc i = length (sParams sig)
         then (case t of TSlice e \<Rightarrow> ''...'' @ ts e | _ \<Rightarrow> ts t)
         else ts t)"

definition signatureString :: "(gtype \<Rightarrow> string) \<Rightarrow> gsig \<Rightarrow> string" where
  "signatureString ts sig =
     ''('' @ commas (map (param_string ts sig) [0..<length (sParams sig)]) @ '')''
     @ (case sResults sig of
          [] \<Rightarrow> []
        | [r] \<Rightarrow> '' '' @ ts r
        | rs \<Rightarrow> '' ('' @ commas (map ts rs) @ '')'')"

definition field_line :: "(gtype \<Rightarrow> string) \<Rightarrow> string \<Rightarrow> gfield \<Rightarrow> string" where
  "field_line ts name f =
     ''type '' @ name @ '' field '' @ fdName f @ '' '' @ ts (fdType f)
     @ (if fdTag f \<noteq> [] then '' '' @ [backtick] @ fdTag f @ [backtick] else [])
     @ (if fdEmbedded f then '' // embedded'' else [])"

definition receiver :: "gsig \<Rightarrow> string" where
  "receiver sig = (case sRecv sig of Some (TPointer t) \<Rightarrow> ''(*T)'' | _ \<Rightarrow> ''(T)'')"

definition underlying_lines :: "(gtype \<Rightarrow> string) \<Rightarrow> string \<Rightarrow> underlying \<Rightarrow> string list" where
  "underlying_lines ts name u =
     (case u of
        UStruct fs \<Rightarrow>
          (''type '' @ name @ '' struct'')
          # map (field_line ts name) (filter (\<lambda>f. IsExported (fdName f)) fs)
      | UInterface ms es \<Rightarrow>
          (''type '' @ name @ '' interface'')
          # sort (map (\<lambda>m. ''type '' @ name @ '' method '' @ fnName m @ signatureString ts (fnSig m))
                    (filter (\<lambda>m. IsExported (fnName m)) ms)
                  @ map (\<lambda>e. ''type '' @ name @ '' embeds '' @ ts e) es)
      | UOther t \<Rightarrow> [''type '' @ name @ '' '' @ ts t])"

definition renderType :: "(gtype \<Rightarrow> string) \<Rightarrow> string \<Rightarrow> gtypename \<Rightarrow> string list" where
  "renderType ts name tn =
     underlying_lines ts name (tnUnderlying tn)
     @ (case tnMethods tn of
          None \<Rightarrow> []
        | Some ms \<Rightarrow>
            sort (map (\<lambda>m. ''type '' @ name @ '' method '' @ receiver (fnSig m) @ '' '' @ fnName m
                           @ signatureString ts (fnSig m))
                    (filter (\<lambda>m. IsExported (fnName m)) ms)))"

definition object_lines :: "(gtype \<Rightarrow> string) \<Rightarrow> string \<times> gobject \<Rightarrow> string list" where
  "object_lines ts nobj =
     (let (name, obj) = nobj
      in if \<not> IsExported name then []
         else case obj of
                OConst t v \<Rightarrow> [''const '' @ name @ '' '' @ ts t @ '' = '' @ v]
              | OVar t \<Rightarrow> [''var '' @ name @ '' '' @ ts t]
              | OFunc sig \<Rightarrow> [''func '' @ name @ signatureString ts sig]
              | OTypeName tn \<Rightarrow> renderType ts name tn
              | OOther \<Rightarrow> [])"

definition package_lines :: "type_string \<Rightarrow> gpackage \<Rightarrow> string list" where
  "package_lines tstr pkg = concat (map (object_lines (tstr (qualifier pkg))) (pkgScope pkg))"

definition renderPackage :: "type_string \<Rightarrow> string \<Rightarrow> gpackage \<Rightarrow> string" where
  "renderPackage tstr rel pkg =
     ''package '' @ rel @ '' // '' @ pkgPath pkg @ [newline]
     @ concat (map (\<lambda>ln. tab # ln @ [newline]) (sort (package_lines tstr pkg)))"

text \<open>The text that \<open>TestGoldenABI\<close> compares with the golden file.\<close>

definition preamble :: "string list" where
  "preamble =
     [''# plugfy-common public ABI surface (golden snapshot)'',
      ''# Module: '' @ modulePath,
      ''# Generated by abi.TestGoldenABI. Do not edit by hand.'',
      ''# Regenerate intentionally with: go test ./abi -run TestGoldenABI -update'']"

definition surface_text :: "type_string \<Rightarrow> (string \<times> gpackage) list \<Rightarrow> string" where
  "surface_text tstr pkgs =
     concat (map (\<lambda>l. l @ [newline]) preamble)
     @ concat (map (\<lambda>(rel, pkg). newline # renderPackage tstr rel pkg) pkgs)"

section \<open>The diff\<close>

fun split_lines :: "string \<Rightarrow> string list" where
  "split_lines [] = [[]]"
| "split_lines (c # cs) =
     (if c = newline then [] # split_lines cs
      else case split_lines cs of l # ls \<Rightarrow> (c # l) # ls | [] \<Rightarrow> [[c]])"

definition tally :: "string list \<Rightarrow> string \<Rightarrow> nat" where
  "tally ls = fold (\<lambda>l m. m(l := m l + 1)) ls (\<lambda>_. 0)"

text \<open>One of the two loops that pick surplus lines: \<open>a\<close> is counted down, \<open>b\<close> is only read.\<close>

fun surplus :: "string list \<Rightarrow> (string \<Rightarrow> nat) \<Rightarrow> (string \<Rightarrow> nat) \<Rightarrow> string list \<times> (string \<Rightarrow> nat)" where
  "surplus [] a b = ([], a)"
| "surplus (l # ls) a b =
     (if b l < a l
      then (let (r, a') = surplus ls (a(l := a l - 1)) b in (l # r, a'))
      else surplus ls a b)"

definition diff_lines :: "string \<Rightarrow> string \<Rightarrow> string list \<times> string list" where
  "diff_lines want got =
     (let wantLines = split_lines want;
          gotLines = split_lines got;
          (removed, wantCount) = surplus wantLines (tally wantLines) (tally gotLines);
          (added, gotCount) = surplus gotLines (tally gotLines) wantCount
      in (removed, added))"

definition order_note :: string where
  "order_note =
     ''(line multiset identical; the difference is line order '' @ map char_of [0xE2, 0x80, 0x94 :: nat]
     @ '' re-run with -update if intentional)'' @ [newline]"

definition unifiedDiff :: "string \<Rightarrow> string \<Rightarrow> string" where
  "unifiedDiff want got =
     (let (removed, added) = diff_lines want got
      in ''--- want (golden)'' @ [newline] @ ''+++ got (current)'' @ [newline]
         @ concat (map (\<lambda>l. ''- '' @ l @ [newline]) removed)
         @ concat (map (\<lambda>l. ''+ '' @ l @ [newline]) added)
         @ (if removed = [] \<and> added = [] then order_note else []))"

section \<open>The text as lines\<close>

text \<open>
  A text of newline-terminated lines, lines that can be read back from it, and the surface
  text as such a list of lines.
\<close>

definition text_of :: "string list \<Rightarrow> string" where
  "text_of ls = concat (map (\<lambda>l. l @ [newline]) ls)"

definition plain :: "string list \<Rightarrow> bool" where
  "plain ls \<longleftrightarrow> (\<forall>l \<in> set ls. newline \<notin> set l)"

definition block_lines :: "type_string \<Rightarrow> string \<times> gpackage \<Rightarrow> string list" where
  "block_lines tstr rp =
     [] # (''package '' @ fst rp @ '' // '' @ pkgPath (snd rp)) # map ((#) tab) (sort (package_lines tstr (snd rp)))"

definition surface_lines :: "type_string \<Rightarrow> (string \<times> gpackage) list \<Rightarrow> string list" where
  "surface_lines tstr pkgs = preamble @ concat (map (block_lines tstr) pkgs)"

definition plain_package :: "type_string \<Rightarrow> string \<times> gpackage \<Rightarrow> bool" where
  "plain_package tstr rp \<longleftrightarrow> plain (fst rp # pkgPath (snd rp) # package_lines tstr (snd rp))"

section \<open>Lemmas on the diff\<close>

lemma fold_tally: "fold (\<lambda>l m. m(l := m l + 1)) ls f x = f x + count (mset ls) x"
  by (induction ls arbitrary: f) auto

lemma tally_count: "tally ls = count (mset ls)"
  unfolding tally_def by (intro ext) (simp only: fold_tally)

lemma surplus_count:
  "count (mset (fst (surplus ls a b))) x = min (count (mset ls) x) (a x - b x)
   \<and> snd (surplus ls a b) x = a x - min (count (mset ls) x) (a x - b x)"
proof (induction ls arbitrary: a)
  case (Cons l ls)
  show ?case
  proof (cases "b l < a l")
    case True
    define a1 where "a1 = a(l := a l - 1)"
    have "a1 x = (if x = l then a l - 1 else a x)" by (simp add: a1_def)
    moreover have "surplus (l # ls) a b = (l # fst (surplus ls a1 b), snd (surplus ls a1 b))"
      using True by (simp add: split_beta a1_def)
    ultimately show ?thesis using True Cons [of a1] by (cases "l = x") (auto simp: min_def)
  next
    case False
    then show ?thesis using Cons [of a] by (cases "l = x") simp_all
  qed
qed simp

lemma surplus_subseq: "subseq (fst (surplus ls a b)) ls"
  by (induction ls arbitrary: a) (auto simp: split_beta intro: list_emb_Cons)

lemma diff_lines_mset:
  "mset (fst (diff_lines want got)) = mset (split_lines want) - mset (split_lines got)"
  "mset (snd (diff_lines want got)) = mset (split_lines got) - mset (split_lines want)"
  by (rule multiset_eqI; simp add: diff_lines_def split_beta Let_def surplus_count tally_count)+

lemma diff_lines_subseq:
  "subseq (fst (diff_lines want got)) (split_lines want)"
  "subseq (snd (diff_lines want got)) (split_lines got)"
  by (simp_all add: diff_lines_def split_beta Let_def surplus_subseq)

lemma diff_lines_Nil:
  "diff_lines want got = ([], []) \<longleftrightarrow> mset (split_lines want) = mset (split_lines got)"
proof -
  have "diff_lines want got = ([], []) \<longleftrightarrow>
      mset (fst (diff_lines want got)) = {#} \<and> mset (snd (diff_lines want got)) = {#}"
    by (cases "diff_lines want got") simp
  also have "\<dots> \<longleftrightarrow> mset (split_lines want) = mset (split_lines got)"
    unfolding diff_lines_mset Diff_eq_empty_iff_mset by (auto intro: subset_mset.antisym)
  finally show ?thesis .
qed

section \<open>Lemmas on the text\<close>

lemma text_of_simps [simp]:
  "text_of [] = []" "text_of (l # ls) = l @ newline # text_of ls" "text_of (ls @ ls') = text_of ls @ text_of ls'"
  by (simp_all add: text_of_def)

lemma text_of_map_marked: "text_of (map ((@) m) ls) = concat (map (\<lambda>l. m @ l @ [newline]) ls)"
  by (induction ls) auto

lemma plain_simps [simp]:
  "plain []" "plain (l # ls) \<longleftrightarrow> newline \<notin> set l \<and> plain ls" "plain (ls @ ls') \<longleftrightarrow> plain ls \<and> plain ls'"
  by (auto simp: plain_def)

lemma split_lines_line: "newline \<notin> set l \<Longrightarrow> split_lines (l @ newline # cs) = l # split_lines cs"
  by (induction l) auto

lemma split_lines_text: "plain ls \<Longrightarrow> split_lines (text_of ls) = ls @ [[]]"
  by (induction ls) (auto simp: split_lines_line)

lemma text_of_inject: "plain ls \<Longrightarrow> plain ls' \<Longrightarrow> text_of ls = text_of ls' \<longleftrightarrow> ls = ls'"
  by (metis split_lines_text append_same_eq)

lemma text_of_map_tab: "text_of (map ((#) tab) ls) = concat (map (\<lambda>ln. tab # ln @ [newline]) ls)"
  by (induction ls) auto

lemma text_of_block: "text_of (block_lines tstr (rel, pkg)) = newline # renderPackage tstr rel pkg"
  by (simp add: block_lines_def renderPackage_def text_of_map_tab)

lemma surface_text_lines: "surface_text tstr pkgs = text_of (surface_lines tstr pkgs)"
proof -
  have "text_of (concat (map (block_lines tstr) pkgs)) =
      concat (map (\<lambda>(rel, pkg). newline # renderPackage tstr rel pkg) pkgs)"
    by (induction pkgs) (auto simp: text_of_block)
  then show ?thesis by (simp add: surface_text_def surface_lines_def text_of_def)
qed

lemma plain_surface:
  assumes "list_all (plain_package tstr) pkgs"
  shows "plain (surface_lines tstr pkgs)"
proof -
  have "plain preamble" by (simp add: preamble_def modulePath_def newline_def)
  moreover have "plain (block_lines tstr rp)" if "plain_package tstr rp" for rp
    using that by (auto simp: plain_package_def block_lines_def plain_def newline_def tab_def)
  ultimately show ?thesis using assms by (induction pkgs) (auto simp: surface_lines_def)
qed

lemma tabs_split:
  assumes "map ((#) tab) xs @ zs = map ((#) tab) xs' @ zs'"
    and "zs = [] \<or> hd zs = []" and "zs' = [] \<or> hd zs' = []"
  shows "xs = xs' \<and> zs = zs'"
  using assms
proof (induction xs arbitrary: xs')
  case Nil
  then show ?case by (cases xs') auto
next
  case (Cons x xs)
  then show ?case by (cases xs') auto
qed

lemma sort_eq_iff: "sort xs = sort ys \<longleftrightarrow> mset xs = mset ys"
  for xs ys :: "'a :: linorder list"
proof
  assume "sort xs = sort ys"
  then have "mset (sort xs) = mset (sort ys)" by (rule arg_cong)
  then show "mset xs = mset ys" by simp
next
  assume "mset xs = mset ys"
  then show "sort xs = sort ys" by (intro properties_for_sort) simp_all
qed

lemma renderPackage_cong:
  "pkgPath p = pkgPath p' \<Longrightarrow> mset (package_lines tstr p) = mset (package_lines tstr p') \<Longrightarrow>
     renderPackage tstr rel p = renderPackage tstr rel p'"
  by (simp add: renderPackage_def sort_eq_iff [symmetric])

lemma concat_blocks_hd: "concat (map (block_lines tstr) pkgs) = [] \<or> hd (concat (map (block_lines tstr) pkgs)) = []"
  by (cases pkgs) (auto simp: block_lines_def)

lemma blocks_inject:
  assumes "map fst pkgs = map fst pkgs'"
  shows "concat (map (block_lines tstr) pkgs) = concat (map (block_lines tstr) pkgs') \<longleftrightarrow>
    list_all2 (\<lambda>(r, p) (r', p'). pkgPath p = pkgPath p'
      \<and> mset (package_lines tstr p) = mset (package_lines tstr p')) pkgs pkgs'"
  using assms
proof (induction pkgs arbitrary: pkgs')
  case (Cons rp pkgs)
  then obtain rp' qs where pkgs': "pkgs' = rp' # qs" "fst rp = fst rp'" "map fst pkgs = map fst qs" by (cases pkgs') auto
  let ?c = "\<lambda>ps. concat (map (block_lines tstr) ps)" and ?s = "\<lambda>rp. sort (package_lines tstr (snd rp))"
  have "?c (rp # pkgs) = ?c pkgs' \<longleftrightarrow> pkgPath (snd rp) = pkgPath (snd rp')
      \<and> map ((#) tab) (?s rp) @ ?c pkgs = map ((#) tab) (?s rp') @ ?c qs"
    by (simp add: pkgs' block_lines_def)
  also have "map ((#) tab) (?s rp) @ ?c pkgs = map ((#) tab) (?s rp') @ ?c qs \<longleftrightarrow> ?s rp = ?s rp' \<and> ?c pkgs = ?c qs"
    by (rule iffI, rule tabs_split [OF _ concat_blocks_hd concat_blocks_hd], assumption, simp)
  also have "?s rp = ?s rp' \<longleftrightarrow> mset (package_lines tstr (snd rp)) = mset (package_lines tstr (snd rp'))"
    by (rule sort_eq_iff)
  finally show ?case using Cons.IH [OF pkgs'(3)] by (auto simp: pkgs' split_beta)
qed simp

text \<open>For the same list of packages, the surface texts of two states of the module are equal if and
  only if every package has the same import path and the same exported lines, counted with
  multiplicity: a changed, added or removed line of any package changes the text, and the
  order in which the type checker lists the objects does not. (Lines are free of newlines: a
  struct tag with a newline could forge a line.)\<close>

lemma surface_text_eq_iff:
  assumes "map fst pkgs = map fst pkgs'" and "list_all (plain_package tstr) pkgs" and "list_all (plain_package tstr) pkgs'"
  shows "surface_text tstr pkgs = surface_text tstr pkgs' \<longleftrightarrow>
    list_all2 (\<lambda>(r, p) (r', p'). pkgPath p = pkgPath p'
      \<and> mset (package_lines tstr p) = mset (package_lines tstr p')) pkgs pkgs'"
proof -
  have "surface_text tstr pkgs = surface_text tstr pkgs' \<longleftrightarrow> surface_lines tstr pkgs = surface_lines tstr pkgs'"
    unfolding surface_text_lines by (rule text_of_inject [OF plain_surface plain_surface]) fact+
  also have "\<dots> \<longleftrightarrow> concat (map (block_lines tstr) pkgs) = concat (map (block_lines tstr) pkgs')"
    by (simp add: surface_lines_def)
  finally show ?thesis using blocks_inject [OF assms(1)] by simp
qed

section \<open>Properties\<close>

text \<open>C21: \<open>unifiedDiff\<close> reports exactly the multiset difference of the lines: the lines marked as
  removed are those of the golden text that the current one lacks, counted with
  multiplicity and in the order of the golden text, the lines marked as added are the
  converse, and the note on line order is printed exactly when both texts have the same lines.\<close>

theorem unifiedDiff_exact:
  "\<exists>removed added.
     unifiedDiff want got =
       text_of ([''--- want (golden)'', ''+++ got (current)''] @ map ((@) ''- '') removed @ map ((@) ''+ '') added)
       @ (if mset (split_lines want) = mset (split_lines got) then order_note else [])
     \<and> mset removed = mset (split_lines want) - mset (split_lines got)
     \<and> mset added = mset (split_lines got) - mset (split_lines want)
     \<and> subseq removed (split_lines want) \<and> subseq added (split_lines got)"
proof (intro exI conjI)
  have "(fst (diff_lines want got) = [] \<and> snd (diff_lines want got) = []) =
      (mset (split_lines want) = mset (split_lines got))"
    using diff_lines_Nil [of want got] by (cases "diff_lines want got") simp
  then show "unifiedDiff want got =
       text_of ([''--- want (golden)'', ''+++ got (current)''] @ map ((@) ''- '') (fst (diff_lines want got))
         @ map ((@) ''+ '') (snd (diff_lines want got)))
       @ (if mset (split_lines want) = mset (split_lines got) then order_note else [])"
    by (simp only: unifiedDiff_def split_beta Let_def text_of_simps text_of_map_marked append_assoc append.simps)
qed (rule diff_lines_mset diff_lines_subseq)+

text \<open>C34: what the gate does not see. Replacing an alias of a type by a new defined type without
  methods, which breaks every caller that passes the aliased type, leaves the text of the
  package as it was, and so does reordering the fields of a struct.\<close>

theorem gate_blind_spots:
  assumes "mset fs = mset fs'"
  shows "renderPackage tstr rel (p\<lparr>pkgScope := xs @ (n, OTypeName \<lparr>tnUnderlying = u, tnMethods = None\<rparr>) # ys\<rparr>) =
         renderPackage tstr rel (p\<lparr>pkgScope := xs @ (n, OTypeName \<lparr>tnUnderlying = u, tnMethods = Some []\<rparr>) # ys\<rparr>)
    \<and> renderPackage tstr rel (p\<lparr>pkgScope := xs @ (n, OTypeName \<lparr>tnUnderlying = UStruct fs, tnMethods = ms\<rparr>) # ys\<rparr>) =
      renderPackage tstr rel (p\<lparr>pkgScope := xs @ (n, OTypeName \<lparr>tnUnderlying = UStruct fs', tnMethods = ms\<rparr>) # ys\<rparr>)"
proof -
  have q: "qualifier (p\<lparr>pkgScope := s\<rparr>) = qualifier p" for s by (simp add: qualifier_def)
  have same: "object_lines ts (n, OTypeName \<lparr>tnUnderlying = u, tnMethods = None\<rparr>) =
      object_lines ts (n, OTypeName \<lparr>tnUnderlying = u, tnMethods = Some []\<rparr>)" for ts
    by (simp add: object_lines_def renderType_def)
  have "mset (object_lines ts (n, OTypeName \<lparr>tnUnderlying = UStruct fs, tnMethods = ms\<rparr>)) =
      mset (object_lines ts (n, OTypeName \<lparr>tnUnderlying = UStruct fs', tnMethods = ms\<rparr>))" for ts
    using assms by (simp add: object_lines_def renderType_def underlying_lines_def mset_filter)
  then show ?thesis
    by (intro conjI renderPackage_cong) (simp_all add: package_lines_def q same)
qed

theorem gate_blind_spots_witness:
  "renderPackage (\<lambda>q t. ''int'') ''m'' \<lparr>pkgPath = ''m'', pkgName = ''m'', pkgScope = [(''T'', OTypeName \<lparr>tnUnderlying =
      UStruct [\<lparr>fdName = ''A'', fdType = TOther 0, fdTag = [], fdEmbedded = False\<rparr>, \<lparr>fdName = ''B'', fdType = TOther 0, fdTag = [], fdEmbedded = False\<rparr>],
      tnMethods = None\<rparr>)]\<rparr> =
   renderPackage (\<lambda>q t. ''int'') ''m'' \<lparr>pkgPath = ''m'', pkgName = ''m'', pkgScope = [(''T'', OTypeName \<lparr>tnUnderlying =
      UStruct [\<lparr>fdName = ''B'', fdType = TOther 0, fdTag = [], fdEmbedded = False\<rparr>, \<lparr>fdName = ''A'', fdType = TOther 0, fdTag = [], fdEmbedded = False\<rparr>],
      tnMethods = None\<rparr>)]\<rparr>"
proof -
  let ?A = "\<lparr>fdName = ''A'', fdType = TOther 0, fdTag = [], fdEmbedded = False\<rparr>"
  let ?B = "\<lparr>fdName = ''B'', fdType = TOther 0, fdTag = [], fdEmbedded = False\<rparr>"
  have "mset [?A, ?B] = mset [?B, ?A]" by simp
  from gate_blind_spots [OF this, where tstr = "\<lambda>q t. ''int''" and rel = "''m''" and ms = None and n = "''T''"
      and p = "\<lparr>pkgPath = ''m'', pkgName = ''m'', pkgScope = []\<rparr>" and xs = "[]" and ys = "[]" and u = "UOther (TOther 0)"]
  show ?thesis by simp
qed

text \<open>The diff can be empty for a real change. When an exported object moves from one package to
  another and is written the same in both, the texts differ, so the gate fails, but no line
  is reported: the message says that only the order of lines differs.\<close>

lemma diff_hides_moved_object:
  assumes "list_all (plain_package tstr) [(r, a\<lparr>pkgScope := x # s\<rparr>), (r', b\<lparr>pkgScope := t\<rparr>)]"
    and "list_all (plain_package tstr) [(r, a\<lparr>pkgScope := s\<rparr>), (r', b\<lparr>pkgScope := x # t\<rparr>)]"
    and "object_lines (tstr (qualifier a)) x = object_lines (tstr (qualifier b)) x"
    and "object_lines (tstr (qualifier a)) x \<noteq> []"
  shows "surface_text tstr [(r, a\<lparr>pkgScope := x # s\<rparr>), (r', b\<lparr>pkgScope := t\<rparr>)]
      \<noteq> surface_text tstr [(r, a\<lparr>pkgScope := s\<rparr>), (r', b\<lparr>pkgScope := x # t\<rparr>)]
    \<and> diff_lines (surface_text tstr [(r, a\<lparr>pkgScope := x # s\<rparr>), (r', b\<lparr>pkgScope := t\<rparr>)])
        (surface_text tstr [(r, a\<lparr>pkgScope := s\<rparr>), (r', b\<lparr>pkgScope := x # t\<rparr>)]) = ([], [])"
proof -
  have q: "qualifier (p\<lparr>pkgScope := s\<rparr>) = qualifier p" for p s by (simp add: qualifier_def)
  have "\<not> mset (package_lines tstr (a\<lparr>pkgScope := x # s\<rparr>)) = mset (package_lines tstr (a\<lparr>pkgScope := s\<rparr>))"
    using assms(4) by (simp add: package_lines_def q)
  moreover have "mset (surface_lines tstr [(r, a\<lparr>pkgScope := x # s\<rparr>), (r', b\<lparr>pkgScope := t\<rparr>)]) =
      mset (surface_lines tstr [(r, a\<lparr>pkgScope := s\<rparr>), (r', b\<lparr>pkgScope := x # t\<rparr>)])"
    using assms(3) by (simp add: surface_lines_def block_lines_def package_lines_def q)
  ultimately show ?thesis
    using surface_text_eq_iff [OF _ assms(1,2)]
    by (simp add: diff_lines_Nil surface_text_lines split_lines_text plain_surface [OF assms(1)] plain_surface [OF assms(2)])
qed

end
