(* ===== verification/Abi_Loader.thy ===== *)
theory Abi_Loader
  imports Abi_Render
begin

text \<open>
  The ABI gate, second part (\<^verbatim>\<open>src/abi/abi_test.go\<close>): the loader that type-checks the packages of
  the module and resolves their imports recursively, with a cache and with detection of
  import cycles, and \<open>TestGoldenABI\<close>, which puts loading, rendering and comparison together.
  What the gate takes from the toolchain and the file system is the record \<open>env\<close>: the two
  importers of the standard library, the directory listing, the parser, the imports of
  parsed files and the type checker, which asks the loader for every import of the package
  and then sees the results. Errors are strings.
\<close>

section \<open>The code\<close>

record ('f, 'p) env =
  std_Import :: "string \<Rightarrow> string + 'p"
  stdSource_Import :: "string \<Rightarrow> string + 'p"
  ReadDir :: "string \<Rightarrow> string + (string \<times> bool) list"
  ParseFile :: "string \<Rightarrow> string + 'f"
  imports_of :: "'f list \<Rightarrow> string list"
  Check :: "string \<Rightarrow> 'f list \<Rightarrow> (string + 'p) list \<Rightarrow> string + 'p"

record 'p loader =
  moduleRoot :: string
  cache :: "string \<rightharpoonup> 'p"
  inProgress :: "string set"

definition newLoader :: "string \<Rightarrow> 'p loader" where
  "newLoader root = \<lparr>moduleRoot = root, cache = Map.empty, inProgress = {}\<rparr>"

text \<open>
  \<open>filepath.Join\<close> of a clean directory and a clean relative path. Import paths are in canonical
  spelling, without empty, \<^verbatim>\<open>.\<close> and \<^verbatim>\<open>..\<close> elements, as the go command requires of a module's
  packages, so that there is nothing for it to clean.
\<close>

definition filepath_Join :: "string \<Rightarrow> string \<Rightarrow> string" where
  "filepath_Join dir name = (if dir = ''/'' then dir @ name else dir @ ''/'' @ name)"

fun parse_all :: "('f, 'p) env \<Rightarrow> string \<Rightarrow> string list \<Rightarrow> string + (string \<times> 'f) list" where
  "parse_all env dir [] = Inr []"
| "parse_all env dir (name # names) =
     (case ParseFile env (filepath_Join dir name) of
        Inl err \<Rightarrow> Inl err
      | Inr f \<Rightarrow>
          (case parse_all env dir names of
             Inl err \<Rightarrow> Inl err
           | Inr fs \<Rightarrow> Inr ((filepath_Join dir name, f) # fs)))"

definition parseDir :: "('f, 'p) env \<Rightarrow> string \<Rightarrow> string + 'f list" where
  "parseDir env dir =
     (case ReadDir env dir of
        Inl err \<Rightarrow> Inl err
      | Inr es \<Rightarrow>
          (case parse_all env dir
                  (map fst (filter (\<lambda>(name, isDir). \<not> isDir \<and> suffix ''.go'' name \<and> \<not> suffix ''_test.go'' name) es)) of
             Inl err \<Rightarrow> Inl err
           | Inr fs \<Rightarrow> Inr (map snd (sort_key fst fs))))"

definition source_dir :: "string \<Rightarrow> string \<Rightarrow> string" where
  "source_dir root importPath = filepath_Join root (TrimPrefix importPath (modulePath @ ''/''))"

text \<open>
  The recursion runs through the type checker: \<open>importAll\<close> are its calls of \<open>Import\<close> for the
  imports of a package, in order. The first argument is fuel, spent by the nesting of imports;
  without it the result is \<open>None\<close>.
\<close>

fun importPackage :: "('f, 'p) env \<Rightarrow> nat \<Rightarrow> string \<Rightarrow> 'p loader \<Rightarrow> ((string + 'p) \<times> 'p loader) option"
  and importAll :: "('f, 'p) env \<Rightarrow> nat \<Rightarrow> string list \<Rightarrow> 'p loader \<Rightarrow> ((string + 'p) list \<times> 'p loader) option" where
  "importPackage env 0 importPath l = None"
| "importPackage env (Suc n) importPath l =
     (case cache l importPath of
        Some pkg \<Rightarrow> Some (Inr pkg, l)
      | None \<Rightarrow>
          if \<not> prefix modulePath importPath then
            (case (case std_Import env importPath of Inr pkg \<Rightarrow> Inr pkg | Inl _ \<Rightarrow> stdSource_Import env importPath) of
               Inl err \<Rightarrow> Some (Inl err, l)
             | Inr pkg \<Rightarrow> Some (Inr pkg, l\<lparr>cache := (cache l)(importPath \<mapsto> pkg)\<rparr>))
          else if importPath \<in> inProgress l then
            Some (Inl (''import cycle detected at '' @ [CHR 0x22] @ importPath @ [CHR 0x22]), l)
          else
            (let l1 = l\<lparr>inProgress := insert importPath (inProgress l)\<rparr>;
                 finish = (\<lambda>l. l\<lparr>inProgress := inProgress l - {importPath}\<rparr>);
                 dir = source_dir (moduleRoot l) importPath
             in case parseDir env dir of
                  Inl err \<Rightarrow> Some (Inl err, finish l1)
                | Inr files \<Rightarrow>
                    if files = [] then Some (Inl (''no non-test Go files in '' @ dir), finish l1)
                    else case importAll env n (imports_of env files) l1 of
                           None \<Rightarrow> None
                         | Some (rs, l2) \<Rightarrow>
                             (case Check env importPath files rs of
                                Inl err \<Rightarrow> Some (Inl err, finish l2)
                              | Inr pkg \<Rightarrow> Some (Inr pkg, finish (l2\<lparr>cache := (cache l2)(importPath \<mapsto> pkg)\<rparr>)))))"
| "importAll env n [] l = Some ([], l)"
| "importAll env n (p # ps) l =
     (case importPackage env n p l of
        None \<Rightarrow> None
      | Some (r, l1) \<Rightarrow>
          (case importAll env n ps l1 of
             None \<Rightarrow> None
           | Some (rs, l2) \<Rightarrow> Some (r # rs, l2)))"

definition loader_load :: "('f, 'p) env \<Rightarrow> nat \<Rightarrow> string \<Rightarrow> 'p loader \<Rightarrow> ((string + 'p) \<times> 'p loader) option" where
  "loader_load env n rel l = importPackage env n (modulePath @ ''/'' @ rel) l"

text \<open>
  What the test takes from the operating system: the working directory, as its list of path
  elements, which directories hold a \<open>go.mod\<close>, and the reading and writing of files
  (a write gives an error or nothing).
\<close>

record host =
  Getwd :: "string + string list"
  has_go_mod :: "string list \<Rightarrow> bool"
  ReadFile :: "string \<Rightarrow> string + string"
  MkdirAll :: "string \<Rightarrow> string option"
  WriteFile :: "string \<Rightarrow> string \<Rightarrow> string option"

definition path_string :: "string list \<Rightarrow> string" where
  "path_string dir = (if dir = [] then ''/'' else concat (map ((@) ''/'') dir))"

text \<open>The loop goes up to the parent until the parent of a directory is the directory itself.\<close>

function root_above :: "(string list \<Rightarrow> bool) \<Rightarrow> string list \<Rightarrow> string + string list" where
  "root_above has_mod dir =
     (if has_mod dir then Inr dir
      else if butlast dir = dir then Inl (''go.mod not found from '' @ path_string dir @ '' upward'')
      else root_above has_mod (butlast dir))"
  by pat_completeness auto
termination
proof (relation "measure (\<lambda>(m, d). length d)")
  fix has_mod :: "string list \<Rightarrow> bool" and dir :: "string list"
  assume "butlast dir \<noteq> dir"
  then show "((has_mod, butlast dir), (has_mod, dir)) \<in> measure (\<lambda>(m, d). length d)" by (cases dir) auto
qed simp

declare root_above.simps [simp del]

definition findModuleRoot :: "host \<Rightarrow> string + string" where
  "findModuleRoot h =
     (case Getwd h of
        Inl err \<Rightarrow> Inl err
      | Inr dir \<Rightarrow> (case root_above (has_go_mod h) dir of Inl err \<Rightarrow> Inl err | Inr root \<Rightarrow> Inr (path_string root)))"

text \<open>
  The test: fatal errors, the rewriting of the golden file under \<open>-update\<close> (with the text
  written), success, and drift with the diff that its message ends in. \<open>Fatal\<close> has the step
  that failed and its error.
\<close>

definition goldenPath :: string where
  "goldenPath = ''testdata/api.golden''"

datatype fatal_step = LocateRoot | TypeCheck string | CreateDir | WriteGolden | ReadGolden

datatype gate_result = Fatal fatal_step string | Updated string | Passed | Drifted string

fun load_surface ::
  "('f, 'p) env \<Rightarrow> nat \<Rightarrow> string list \<Rightarrow> 'p loader \<Rightarrow> ((string \<times> string) + (string \<times> 'p) list) option" where
  "load_surface env n [] l = Some (Inr [])"
| "load_surface env n (rel # rels) l =
     (case loader_load env n rel l of
        None \<Rightarrow> None
      | Some (Inl err, l1) \<Rightarrow> Some (Inl (rel, err))
      | Some (Inr pkg, l1) \<Rightarrow>
          (case load_surface env n rels l1 of
             Some (Inr pkgs) \<Rightarrow> Some (Inr ((rel, pkg) # pkgs))
           | r \<Rightarrow> r))"

definition update_golden :: "host \<Rightarrow> string \<Rightarrow> gate_result" where
  "update_golden h got =
     (case MkdirAll h ''testdata'' of
        Some err \<Rightarrow> Fatal CreateDir err
      | None \<Rightarrow> (case WriteFile h goldenPath got of Some err \<Rightarrow> Fatal WriteGolden err | None \<Rightarrow> Updated got))"

definition compare_golden :: "host \<Rightarrow> string \<Rightarrow> gate_result" where
  "compare_golden h got =
     (case ReadFile h goldenPath of
        Inl err \<Rightarrow> Fatal ReadGolden err
      | Inr want \<Rightarrow> if got \<noteq> want then Drifted (unifiedDiff want got) else Passed)"

definition TestGoldenABI ::
  "('f, gpackage) env \<Rightarrow> host \<Rightarrow> type_string \<Rightarrow> nat \<Rightarrow> bool \<Rightarrow> gate_result option" where
  "TestGoldenABI env h tstr n update =
     (case findModuleRoot h of
        Inl err \<Rightarrow> Some (Fatal LocateRoot err)
      | Inr root \<Rightarrow>
          (case load_surface env n surfacePackages (newLoader root) of
             None \<Rightarrow> None
           | Some (Inl (rel, err)) \<Rightarrow> Some (Fatal (TypeCheck rel) err)
           | Some (Inr pkgs) \<Rightarrow>
               (let got = surface_text tstr pkgs
                in Some (if update then update_golden h got else compare_golden h got))))"

section \<open>What should load\<close>

text \<open>
  The specification: a package outside the module is what one of the importers delivers; a
  package of the module is what the type checker makes of its files once all its imports have
  been loaded. An edge leads from a package of the module to each of its imports.
\<close>

definition std_package :: "('f, 'p) env \<Rightarrow> string \<Rightarrow> string + 'p" where
  "std_package env path =
     (case std_Import env path of Inr pkg \<Rightarrow> Inr pkg | Inl _ \<Rightarrow> stdSource_Import env path)"

definition has_source :: "('f, 'p) env \<Rightarrow> string \<Rightarrow> string \<Rightarrow> 'f list \<Rightarrow> bool" where
  "has_source env root path files \<longleftrightarrow>
     prefix modulePath path \<and> parseDir env (source_dir root path) = Inr files \<and> files \<noteq> []"

inductive importable :: "('f, 'p) env \<Rightarrow> string \<Rightarrow> string \<Rightarrow> 'p \<Rightarrow> bool" for env root where
  std: "\<not> prefix modulePath path \<Longrightarrow> std_package env path = Inr pkg \<Longrightarrow> importable env root path pkg"
| mod: "has_source env root path files \<Longrightarrow> list_all2 (importable env root) (imports_of env files) pkgs \<Longrightarrow>
    Check env path files (map Inr pkgs) = Inr pkg \<Longrightarrow> importable env root path pkg"

inductive_cases importableE: "importable env root path pkg"

definition edge :: "('f, 'p) env \<Rightarrow> string \<Rightarrow> string \<Rightarrow> string \<Rightarrow> bool" where
  "edge env root p q \<longleftrightarrow> (\<exists>files. has_source env root p files \<and> q \<in> set (imports_of env files))"

definition strict_check :: "('f, 'p) env \<Rightarrow> bool" where
  "strict_check env \<longleftrightarrow> (\<forall>path files rs err. Inl err \<in> set rs \<longrightarrow> (\<exists>err'. Check env path files rs = Inl err'))"

definition cache_ok :: "('f, 'p) env \<Rightarrow> 'p loader \<Rightarrow> bool" where
  "cache_ok env l \<longleftrightarrow> (\<forall>path pkg. cache l path = Some pkg \<longrightarrow> importable env (moduleRoot l) path pkg)"

definition loads_as :: "('f, 'p) env \<Rightarrow> string \<Rightarrow> string \<Rightarrow> 'p \<Rightarrow> bool" where
  "loads_as env root p pkg \<longleftrightarrow>
     (\<forall>n l r l'. importPackage env n p l = Some (r, l') \<longrightarrow> moduleRoot l = root \<longrightarrow> cache_ok env l \<longrightarrow>
        (\<forall>q \<in> inProgress l. \<not> (edge env root)\<^sup>*\<^sup>* p q) \<longrightarrow> r = Inr pkg)"

text \<open>A small module for examples: one file per directory, whose name decides its imports.\<close>

definition demo_env :: "(string \<Rightarrow> string list) \<Rightarrow> string list \<Rightarrow> (string, gpackage) env" where
  "demo_env imps rels =
     \<lparr>std_Import = (\<lambda>p. Inl ''no export data''),
      stdSource_Import = (\<lambda>p. Inr \<lparr>pkgPath = p, pkgName = p, pkgScope = []\<rparr>),
      ReadDir = (\<lambda>d. if d \<in> set (map ((@) ''/r/'') rels) then Inr [(''a.go'', False), (''a_test.go'', False)] else Inl ''no such directory''),
      ParseFile = Inr,
      imports_of = (\<lambda>fs. imps (hd fs)),
      Check = (\<lambda>p fs rs. if list_all (\<lambda>r. \<not> isl r) rs then Inr \<lparr>pkgPath = p, pkgName = p, pkgScope = []\<rparr> else Inl ''import failed'')\<rparr>"

definition demo_host :: "string \<Rightarrow> host" where
  "demo_host golden =
     \<lparr>Getwd = Inr [''r'', ''abi''], has_go_mod = (\<lambda>d. d = [''r'']), ReadFile = (\<lambda>p. Inr golden),
      MkdirAll = (\<lambda>p. None), WriteFile = (\<lambda>p t. None)\<rparr>"

section \<open>Lemmas\<close>

lemma has_source_fun: "has_source env root p fs \<Longrightarrow> has_source env root p fs' \<Longrightarrow> fs = fs'"
  by (simp add: has_source_def)

lemma importable_det: "importable env root path pkg \<Longrightarrow> importable env root path pkg' \<Longrightarrow> pkg = pkg'"
proof (induction arbitrary: pkg' rule: importable.induct)
  case (std path pkg)
  from std.prems show ?case by (rule importableE) (use std.hyps in \<open>auto simp: has_source_def\<close>)
next
  case (mod path files pkgs pkg)
  from mod.prems show ?case
  proof (rule importableE)
    fix fs ps
    assume fs: "has_source env root path fs" and ps: "list_all2 (importable env root) (imports_of env fs) ps"
      and ch: "Check env path fs (map Inr ps) = Inr pkg'"
    have "fs = files" using fs mod.hyps(1) by (rule has_source_fun)
    moreover have "ps = pkgs"
      using mod.IH ps unfolding \<open>fs = files\<close>
      by (intro nth_equalityI) (simp_all add: list_all2_conv_all_nth, metis)
    ultimately show "pkg = pkg'" using ch mod.hyps(2) by simp
  qed (use mod.hyps(1) in \<open>simp add: has_source_def\<close>)
qed

text \<open>An importable package does not depend on a cycle.\<close>

lemma importable_acc: "importable env root p pkg \<Longrightarrow> Wellfounded.accp (\<lambda>q p. edge env root p q) p"
proof (induction rule: importable.induct)
  case (std path pkg)
  then have "\<not> edge env root path q" for q by (simp add: edge_def has_source_def)
  then show ?case by (blast intro: accpI)
next
  case (mod path files pkgs pkg)
  show ?case
  proof (rule accpI)
    fix q assume "edge env root path q"
    then have "q \<in> set (imports_of env files)" using has_source_fun mod.hyps(1) unfolding edge_def by blast
    then show "Wellfounded.accp (\<lambda>q p. edge env root p q) q"
      using mod.IH by (auto simp only: list_all2_conv_all_nth in_set_conv_nth)
  qed
qed

lemma acc_no_cycle: "Wellfounded.accp (\<lambda>q p. edge env root p q) p \<Longrightarrow> \<not> (edge env root)\<^sup>+\<^sup>+ p p"
proof (induction rule: accp.induct)
  case (accI p)
  show ?case
  proof
    assume "(edge env root)\<^sup>+\<^sup>+ p p"
    then obtain q where q: "edge env root p q" "(edge env root)\<^sup>*\<^sup>* q p" by (meson tranclpD)
    then have "(edge env root)\<^sup>+\<^sup>+ q q" by (metis rtranclp_into_tranclp1)
    with accI.IH q(1) show False by blast
  qed
qed

text \<open>The situations of one call of \<open>importPackage\<close>, and what the call does in each.\<close>

abbreviation entered :: "string \<Rightarrow> 'p loader \<Rightarrow> 'p loader" where
  "entered p l \<equiv> l\<lparr>inProgress := insert p (inProgress l)\<rparr>"

lemma import_hit: "cache l p = Some pkg \<Longrightarrow> importPackage env (Suc n) p l = Some (Inr pkg, l)"
  by simp

lemma import_std:
  "cache l p = None \<Longrightarrow> \<not> prefix modulePath p \<Longrightarrow> importPackage env (Suc n) p l =
     Some (case std_package env p of Inl err \<Rightarrow> (Inl err, l) | Inr pkg \<Rightarrow> (Inr pkg, l\<lparr>cache := (cache l)(p \<mapsto> pkg)\<rparr>))"
  by (simp add: std_package_def split: sum.split)

lemma import_cyclic:
  "cache l p = None \<Longrightarrow> prefix modulePath p \<Longrightarrow> p \<in> inProgress l \<Longrightarrow>
     \<exists>err. importPackage env (Suc n) p l = Some (Inl err, l)"
  by simp

lemma import_no_source:
  assumes "cache l p = None" and "prefix modulePath p" and "p \<notin> inProgress l"
    and "\<forall>files. \<not> has_source env (moduleRoot l) p files"
  shows "\<exists>err. importPackage env (Suc n) p l = Some (Inl err, l)"
  using assms by (cases "parseDir env (source_dir (moduleRoot l) p)") (auto simp: has_source_def Let_def)

lemma import_source:
  assumes "cache l p = None" and "p \<notin> inProgress l" and "has_source env (moduleRoot l) p files"
  shows "importPackage env (Suc n) p l =
    (case importAll env n (imports_of env files) (entered p l) of
       None \<Rightarrow> None
     | Some (rs, l2) \<Rightarrow>
         (case Check env p files rs of
            Inl err \<Rightarrow> Some (Inl err, l2\<lparr>inProgress := inProgress l2 - {p}\<rparr>)
          | Inr pkg \<Rightarrow> Some (Inr pkg, l2\<lparr>cache := (cache l2)(p \<mapsto> pkg), inProgress := inProgress l2 - {p}\<rparr>)))"
  using assms by (simp add: has_source_def Let_def split: option.split prod.split sum.split)

lemma import_situation:
  obtains (hit) pkg where "cache l p = Some pkg"
  | (std) "cache l p = None" "\<not> prefix modulePath p"
  | (fails) "\<And>n. \<exists>err. importPackage env (Suc n) p l = Some (Inl err, l)" "prefix modulePath p"
  | (source) files where "cache l p = None" "p \<notin> inProgress l" "has_source env (moduleRoot l) p files"
proof (cases "cache l p")
  case None
  show ?thesis
  proof (cases "prefix modulePath p")
    case True
    then show ?thesis
      using None fails source import_cyclic [OF None True] import_no_source [OF None True] by blast
  qed (use None std in blast)
qed (use hit in blast)

declare importPackage.simps(2) [simp del]
lemmas import_simps = import_hit import_std import_source

lemma import_frame: "importPackage env n p l = Some (r, l') \<Longrightarrow> inProgress l' = inProgress l \<and> moduleRoot l' = moduleRoot l"
proof (induction n arbitrary: p l r l')
  case (Suc n)
  have all: "importAll env n ps l = Some (rs, l') \<Longrightarrow> inProgress l' = inProgress l \<and> moduleRoot l' = moduleRoot l" for ps l rs l'
    by (induction ps arbitrary: l rs l') (force split: option.splits prod.splits dest: Suc.IH)+
  show ?case
  proof (cases rule: import_situation [where l = l and p = p and env = env])
    case (source files)
    with Suc.prems show ?thesis
      by (auto simp: import_source split: option.splits prod.splits sum.splits dest!: all)
  next
    case std
    then show ?thesis using Suc.prems by (auto simp: import_std split: sum.splits)
  next
    case fails
    then show ?thesis using Suc.prems by (metis Pair_inject option.inject)
  qed (use Suc.prems in \<open>simp add: import_hit\<close>)
qed simp

lemma importAll_frame: "importAll env n ps l = Some (rs, l') \<Longrightarrow> inProgress l' = inProgress l \<and> moduleRoot l' = moduleRoot l"
  by (induction ps arbitrary: l rs l') (force split: option.splits prod.splits dest: import_frame)+

lemma import_enough_fuel:
  assumes "finite U" and "\<forall>p files. has_source env root p files \<longrightarrow> p \<in> U"
  shows "moduleRoot l = root \<Longrightarrow> card (U - inProgress l) < n \<Longrightarrow>
    \<exists>r l'. importPackage env n p l = Some (r, l') \<and> inProgress l' = inProgress l \<and> moduleRoot l' = root"
proof (induction n arbitrary: p l)
  case (Suc n)
  have all: "moduleRoot l = root \<Longrightarrow> card (U - inProgress l) < n \<Longrightarrow>
      \<exists>rs l'. importAll env n ps l = Some (rs, l') \<and> inProgress l' = inProgress l \<and> moduleRoot l' = root" for ps l
  proof (induction ps arbitrary: l)
    case (Cons p ps)
    from Suc.IH [OF Cons.prems, of p] obtain r l1 where 1: "importPackage env n p l = Some (r, l1)"
      "inProgress l1 = inProgress l" "moduleRoot l1 = root" by blast
    with Cons.IH [of l1] Cons.prems show ?case by force
  qed simp
  show ?case
  proof (cases rule: import_situation [where l = l and p = p and env = env])
    case (source files)
    then have "p \<in> U" using assms(2) Suc.prems(1) by blast
    then have "U - insert p (inProgress l) \<subset> U - inProgress l" using source(2) by blast
    then have "card (U - insert p (inProgress l)) < card (U - inProgress l)"
      using assms(1) by (intro psubset_card_mono) auto
    then obtain rs l2 where l2: "importAll env n (imports_of env files) (entered p l) = Some (rs, l2)"
      "inProgress l2 = insert p (inProgress l)" "moduleRoot l2 = root"
      using all [of "entered p l" "imports_of env files"] Suc.prems by auto
    then show ?thesis using source by (cases "Check env p files rs") (auto simp: import_source)
  next
    case std
    then show ?thesis using Suc.prems(1) by (cases "std_package env p") (simp_all add: import_std)
  next
    case fails
    then show ?thesis using Suc.prems(1) by blast
  qed (simp add: import_hit Suc.prems(1))
qed simp

lemma import_sound:
  assumes "strict_check env"
  shows "importPackage env n p l = Some (r, l') \<Longrightarrow> cache_ok env l \<Longrightarrow>
    cache_ok env l' \<and> (\<forall>pkg. r = Inr pkg \<longrightarrow> importable env (moduleRoot l) p pkg)"
proof (induction n arbitrary: p l r l')
  case (Suc n)
  have all: "importAll env n ps l = Some (rs, l') \<Longrightarrow> cache_ok env l \<Longrightarrow>
      cache_ok env l' \<and> list_all2 (\<lambda>p r. \<forall>pkg. r = Inr pkg \<longrightarrow> importable env (moduleRoot l) p pkg) ps rs" for ps l rs l'
  proof (induction ps arbitrary: l rs l')
    case (Cons p ps)
    then obtain r l1 rs' where 1: "importPackage env n p l = Some (r, l1)" and 2: "importAll env n ps l1 = Some (rs', l')"
      and rs: "rs = r # rs'" by (auto split: option.splits prod.splits)
    from Suc.IH [OF 1 Cons.prems(2)] Cons.IH [OF 2] import_frame [OF 1] show ?case by (auto simp: rs)
  qed simp
  show ?case
  proof (cases rule: import_situation [where l = l and p = p and env = env])
    case (source files)
    then obtain rs l2 where l2: "importAll env n (imports_of env files) (entered p l) = Some (rs, l2)"
      using Suc.prems(1) by (auto simp: import_source split: option.splits)
    have "cache_ok env (entered p l)" using Suc.prems(2) by (simp add: cache_ok_def)
    from all [OF l2 this] have ok: "cache_ok env l2" and
      rs: "list_all2 (\<lambda>p r. \<forall>pkg. r = Inr pkg \<longrightarrow> importable env (moduleRoot l) p pkg) (imports_of env files) rs" by auto
    have root: "moduleRoot l2 = moduleRoot l" using importAll_frame [OF l2] by simp
    have new: "importable env (moduleRoot l) p pkg" if "Check env p files rs = Inr pkg" for pkg
    proof (rule importable.mod [OF source(3)])
      have inr: "x = Inr (projr x)" if x: "x \<in> set rs" for x
      proof (cases x)
        case (Inl err)
        then obtain err' where "Check env p files rs = Inl err'" using assms x unfolding strict_check_def by blast
        with \<open>Check env p files rs = Inr pkg\<close> show ?thesis by simp
      qed simp
      then have "map Inr (map projr rs) = rs" by (simp add: map_idI comp_def)
      then show "Check env p files (map Inr (map projr rs)) = Inr pkg" using that by simp
      show "list_all2 (importable env (moduleRoot l)) (imports_of env files) (map projr rs)"
        using rs inr by (fastforce simp: list_all2_conv_all_nth)
    qed
    show ?thesis
      using Suc.prems(1) ok root new source
      by (auto simp: import_source l2 cache_ok_def split: sum.splits if_splits)
  next
    case std
    then show ?thesis
      using Suc.prems by (auto simp: import_std cache_ok_def importable.std split: sum.splits if_splits)
  next
    case fails
    then show ?thesis using Suc.prems by (metis Pair_inject option.inject Inl_Inr_False)
  next
    case (hit pkg)
    then show ?thesis using Suc.prems by (auto simp: import_hit cache_ok_def)
  qed
qed simp

text \<open>A path that loads as a package, from every loader in which nothing it needs is in progress.\<close>

lemma loads_asD:
  "loads_as env root p pkg \<Longrightarrow> importPackage env n p l = Some (r, l') \<Longrightarrow> moduleRoot l = root \<Longrightarrow>
     cache_ok env l \<Longrightarrow> \<forall>q \<in> inProgress l. \<not> (edge env root)\<^sup>*\<^sup>* p q \<Longrightarrow> r = Inr pkg"
  by (auto simp: loads_as_def)

lemma importAll_loads:
  assumes "strict_check env"
  shows "list_all2 (loads_as env root) qs ps \<Longrightarrow> importAll env n qs l = Some (rs, l') \<Longrightarrow> moduleRoot l = root \<Longrightarrow>
    cache_ok env l \<Longrightarrow> \<forall>p \<in> set qs. \<forall>q \<in> inProgress l. \<not> (edge env root)\<^sup>*\<^sup>* p q \<Longrightarrow> rs = map Inr ps"
proof (induction qs ps arbitrary: l rs l' rule: list_all2_induct)
  case (Cons q qs pk ps)
  then obtain r l1 rs' where 1: "importPackage env n q l = Some (r, l1)" and 2: "importAll env n qs l1 = Some (rs', l')"
    and rs: "rs = r # rs'" by (auto split: option.splits prod.splits)
  have "r = Inr pk" using loads_asD [OF Cons.hyps(1) 1] Cons.prems by auto
  moreover have "rs' = map Inr ps"
    using Cons.IH [OF 2] import_frame [OF 1] import_sound [OF assms 1] Cons.prems by auto
  ultimately show ?case by (simp add: rs)
qed simp

lemma hit_loads:
  assumes "importable env root p pkg" and "importPackage env n p l = Some (r, l')" and "moduleRoot l = root"
    and "cache_ok env l" and "cache l p = Some pkg'"
  shows "r = Inr pkg"
proof -
  have "importable env root p pkg'" using assms(3-5) by (auto simp: cache_ok_def)
  then have "pkg' = pkg" using assms(1) by (rule importable_det)
  moreover obtain m where "n = Suc m" using assms(2) by (cases n) auto
  ultimately show ?thesis using assms(2,5) by (simp add: import_hit)
qed

lemma source_loads:
  assumes "strict_check env" and "has_source env root p files" and "importable env root p pkg"
    and "list_all2 (loads_as env root) (imports_of env files) pkgs" and "Check env p files (map Inr pkgs) = Inr pkg"
  shows "loads_as env root p pkg"
  unfolding loads_as_def
proof (intro allI impI)
  fix n l r l'
  assume run: "importPackage env n p l = Some (r, l')" and l: "moduleRoot l = root" "cache_ok env l"
    and free: "\<forall>q \<in> inProgress l. \<not> (edge env root)\<^sup>*\<^sup>* p q"
  show "r = Inr pkg"
  proof (cases "cache l p")
    case None
    obtain m where n: "n = Suc m" using run by (cases n) auto
    have src: "has_source env (moduleRoot l) p files" "p \<notin> inProgress l" using assms(2) l free by auto
    then obtain rs l2 where l2: "importAll env m (imports_of env files) (entered p l) = Some (rs, l2)"
      using run None n by (auto simp: import_source split: option.splits)
    have "\<not> (edge env root)\<^sup>*\<^sup>* q x" if "q \<in> set (imports_of env files)" and "x \<in> insert p (inProgress l)" for q x
    proof
      assume *: "(edge env root)\<^sup>*\<^sup>* q x"
      have e: "edge env root p q" using that(1) assms(2) by (auto simp: edge_def)
      then have "x \<noteq> p" using * acc_no_cycle [OF importable_acc [OF assms(3)]] by (meson rtranclp_into_tranclp2)
      then show False using that(2) free * e by (meson converse_rtranclp_into_rtranclp insertE)
    qed
    then have "rs = map Inr pkgs" using importAll_loads [OF assms(1,4) l2] l by (simp add: cache_ok_def)
    then show ?thesis using run assms(5) None src n by (simp add: import_source l2)
  qed (rule hit_loads [OF assms(3) run l])
qed

lemma import_complete:
  assumes "strict_check env"
  shows "importable env root p pkg \<Longrightarrow> loads_as env root p pkg"
proof (induction rule: importable.induct)
  case (std p pkg)
  then have here: "importable env root p pkg" by (rule importable.std)
  show ?case
    unfolding loads_as_def
  proof (intro allI impI)
    fix n l r l'
    assume run: "importPackage env n p l = Some (r, l')" and l: "moduleRoot l = root" "cache_ok env l"
    obtain m where n: "n = Suc m" using run by (cases n) auto
    show "r = Inr pkg"
    proof (cases "cache l p")
      case None
      with run n std show ?thesis by (simp add: import_std)
    qed (rule hit_loads [OF here run l])
  qed
next
  case (mod p files pkgs pkg)
  have "importable env root p pkg"
    using mod.hyps mod.IH by (intro importable.mod) (auto elim: list_all2_mono)
  then show ?case using mod by (intro source_loads [OF assms mod.hyps(1)]) (auto elim: list_all2_mono)
qed

lemma importable_along: "(edge env root)\<^sup>*\<^sup>* p q \<Longrightarrow> importable env root p pkg \<Longrightarrow> \<exists>pkg'. importable env root q pkg'"
proof (induction rule: rtranclp_induct)
  case (step q q')
  then obtain pkg' files where "importable env root q pkg'" and e: "has_source env root q files" "q' \<in> set (imports_of env files)"
    by (auto simp: edge_def)
  then show ?case
  proof (cases rule: importable.cases)
    case (mod fs pkgs)
    then have "fs = files" using e(1) has_source_fun by blast
    then show ?thesis using mod(2) e(2) by (auto simp: list_all2_conv_all_nth in_set_conv_nth)
  qed (auto simp: has_source_def)
qed blast

lemma cyclic_not_importable:
  "(edge env root)\<^sup>*\<^sup>* p q \<Longrightarrow> (edge env root)\<^sup>+\<^sup>+ q q \<Longrightarrow> \<not> importable env root p pkg"
  by (metis importable_along acc_no_cycle [OF importable_acc])

lemma cache_ok_new: "cache_ok env (newLoader root)"
  by (simp add: cache_ok_def newLoader_def)

lemma import_exact:
  assumes "finite U" and "\<forall>p files. has_source env root p files \<longrightarrow> p \<in> U" and "strict_check env" and "card U < n"
    and "moduleRoot l = root" and "cache_ok env l" and "inProgress l = {}"
  shows "\<exists>r l'. importPackage env n path l = Some (r, l') \<and> inProgress l' = {} \<and> cache_ok env l' \<and> moduleRoot l' = root
    \<and> (\<forall>pkg. r = Inr pkg \<longleftrightarrow> importable env root path pkg)"
proof -
  obtain r l' where run: "importPackage env n path l = Some (r, l')"
    using import_enough_fuel [OF assms(1,2,5), of n path] assms(4,7) by auto
  have "r = Inr pkg" if "importable env root path pkg" for pkg
    using loads_asD [OF import_complete [OF assms(3) that] run assms(5,6)] assms(7) by simp
  then show ?thesis using run import_frame [OF run] import_sound [OF assms(3) run assms(6)] assms(5,7) by blast
qed

lemma load_surface_importable:
  assumes "finite U" and "\<forall>p files. has_source env root p files \<longrightarrow> p \<in> U" and "strict_check env" and "card U < n"
  shows "list_all2 (\<lambda>rel. importable env root (modulePath @ ''/'' @ rel)) rels pkgs \<Longrightarrow>
    moduleRoot l = root \<Longrightarrow> cache_ok env l \<Longrightarrow> inProgress l = {} \<Longrightarrow> load_surface env n rels l = Some (Inr (zip rels pkgs))"
proof (induction rels pkgs arbitrary: l rule: list_all2_induct)
  case (Cons rel rels pkg pkgs)
  obtain r l' where run: "importPackage env n (modulePath @ ''/'' @ rel) l = Some (r, l')" "inProgress l' = {}" "cache_ok env l'"
    "moduleRoot l' = root" and r: "r = Inr pkg"
    using import_exact [OF assms Cons.prems, of "modulePath @ ''/'' @ rel"] Cons.hyps(1) by blast
  then show ?case using Cons.IH [OF run(4,3,2)] by (simp add: loader_load_def)
qed simp

text \<open>The module root is the nearest directory upwards that holds a module file; when there is none
  the error names the topmost directory, not the one the search started from.\<close>

lemma root_above_nearest:
  "case root_above m dir of
     Inr d \<Rightarrow> m d \<and> prefix d dir \<and> (\<forall>e. prefix e dir \<and> m e \<longrightarrow> prefix e d)
   | Inl err \<Rightarrow> err = ''go.mod not found from / upward'' \<and> (\<forall>e. prefix e dir \<longrightarrow> \<not> m e)"
proof (induction m dir rule: root_above.induct)
  case (1 m dir)
  show ?case
  proof (cases "m dir \<or> dir = []")
    case True
    then show ?thesis by (auto simp: root_above.simps [of m dir] path_string_def)
  next
    case False
    then obtain ds d where dir: "dir = ds @ [d]" by (cases dir rule: rev_cases) auto
    then have "root_above m dir = root_above m ds" using False by (simp add: root_above.simps [of m "ds @ [d]"])
    then show ?thesis using 1 False by (auto simp: dir split: sum.splits)
  qed
qed

lemma demo_strict: "strict_check (demo_env imps rels)"
  by (auto simp: strict_check_def demo_env_def list_all_iff)

lemma demo_source:
  "has_source (demo_env imps rels) ''/r'' p files \<longleftrightarrow>
     prefix modulePath p \<and> TrimPrefix p (modulePath @ ''/'') \<in> set rels \<and> files = [source_dir ''/r'' p @ ''/a.go'']"
  by (auto simp: has_source_def demo_env_def parseDir_def source_dir_def filepath_Join_def suffix_def)

lemma demo_U: "\<forall>p files. has_source (demo_env imps rels) ''/r'' p files \<longrightarrow> p \<in> set (map (\<lambda>r. modulePath @ ''/'' @ r) rels)"
  if "\<forall>r \<in> set rels. \<not> prefix modulePath r"
  using that by (auto simp: demo_source TrimPrefix_def prefix_def split: if_splits)

lemma demo_imports: "imports_of (demo_env imps rels) fs = imps (hd fs)"
  by (simp add: demo_env_def)

lemma demo_importable:
  "rel \<in> set rels \<Longrightarrow> importable (demo_env (\<lambda>_. []) rels) ''/r'' (modulePath @ ''/'' @ rel)
     \<lparr>pkgPath = modulePath @ ''/'' @ rel, pkgName = modulePath @ ''/'' @ rel, pkgScope = []\<rparr>"
  by (rule importable.mod [where files = "[source_dir ''/r'' (modulePath @ ''/'' @ rel) @ ''/a.go'']" and pkgs = "[]"])
    (simp_all add: demo_source TrimPrefix_def demo_imports, simp add: demo_env_def)

section \<open>Properties\<close>

text \<open>C12: the loader loads exactly what can be loaded. In a module whose source directories are
  finitely many, with a type checker that fails when an import has failed, the recursion ends
  (its nesting is bounded by the number of directories, which is the fuel it needs), it
  returns a package if and only if that package is importable in the sense of the
  specification, nothing stays marked as in progress, and the cache holds only importable
  packages.\<close>

theorem loader_exact:
  assumes "finite U" and "\<forall>p files. has_source env root p files \<longrightarrow> p \<in> U" and "strict_check env" and "card U < n"
  shows "\<exists>r l'. importPackage env n path (newLoader root) = Some (r, l') \<and> inProgress l' = {} \<and> cache_ok env l'
    \<and> (\<forall>pkg. r = Inr pkg \<longleftrightarrow> importable env root path pkg)"
  using import_exact [OF assms, of "newLoader root" path] cache_ok_new [of env root] by (auto simp: newLoader_def)

theorem loader_exact_witness:
  "\<exists>r l'. importPackage (demo_env (\<lambda>_. [''fmt'']) [''ids'']) 2 (modulePath @ ''/ids'') (newLoader ''/r'') = Some (r, l')
    \<and> (\<forall>pkg. r = Inr pkg \<longleftrightarrow> importable (demo_env (\<lambda>_. [''fmt'']) [''ids'']) ''/r'' (modulePath @ ''/ids'') pkg)"
  using loader_exact [of "{modulePath @ ''/ids''}" "demo_env (\<lambda>_. [''fmt'']) [''ids'']" "''/r''" 2 "modulePath @ ''/ids''"]
    demo_U [of "[''ids'']" "\<lambda>_. [''fmt'']"] demo_strict [of "\<lambda>_. [''fmt'']" "[''ids'']"]
  by (auto simp: modulePath_def)

text \<open>C22: import cycles are reported. When a package depends, directly or not, on a package that
  depends on itself, loading it ends and returns an error.\<close>

theorem loader_reports_cycles:
  assumes "finite U" and "\<forall>p files. has_source env root p files \<longrightarrow> p \<in> U" and "strict_check env" and "card U < n"
    and "(edge env root)\<^sup>*\<^sup>* path q" and "(edge env root)\<^sup>+\<^sup>+ q q"
  shows "\<exists>err l'. importPackage env n path (newLoader root) = Some (Inl err, l')"
proof -
  obtain r l' where "importPackage env n path (newLoader root) = Some (r, l')"
    and "\<forall>pkg. r = Inr pkg \<longleftrightarrow> importable env root path pkg"
    using import_exact [OF assms(1-4), of "newLoader root" path] cache_ok_new [of env root] by (auto simp: newLoader_def)
  moreover have "\<not> importable env root path pkg" for pkg by (rule cyclic_not_importable [OF assms(5,6)])
  ultimately show ?thesis by (cases r) auto
qed

theorem loader_reports_cycles_witness:
  "\<exists>err l'. importPackage (demo_env (\<lambda>_. [modulePath @ ''/ids'']) [''ids'']) 2 (modulePath @ ''/ids'') (newLoader ''/r'')
     = Some (Inl err, l')"
proof -
  let ?env = "demo_env (\<lambda>_. [modulePath @ ''/ids'']) [''ids'']" and ?p = "modulePath @ ''/ids''"
  have "edge ?env ''/r'' ?p ?p" by (simp add: edge_def demo_source TrimPrefix_def demo_imports)
  then show ?thesis
    using loader_reports_cycles [of "{?p}" ?env "''/r''" 2 ?p ?p]
      demo_U [of "[''ids'']" "\<lambda>_. [?p]"] demo_strict [of "\<lambda>_. [?p]" "[''ids'']"] by (auto simp: modulePath_def)
qed

text \<open>C13: the whole gate. When the golden file is the surface text of an earlier state of the module
  and the packages of the current state can be loaded, the test passes if and only if every
  package has the import path and the exported lines it had then; otherwise it reports the
  diff of the two texts.\<close>

theorem golden_gate:
  assumes "finite U" and "\<forall>p files. has_source env root p files \<longrightarrow> p \<in> U" and "strict_check env" and "card U < n"
    and "list_all2 (\<lambda>rel. importable env root (modulePath @ ''/'' @ rel)) surfacePackages pkgs"
    and "findModuleRoot h = Inr root" and "ReadFile h goldenPath = Inr (surface_text tstr old)" and "map fst old = surfacePackages"
    and "list_all (plain_package tstr) old" and "list_all (plain_package tstr) (zip surfacePackages pkgs)"
  shows "TestGoldenABI env h tstr n False =
    Some (if list_all2 (\<lambda>(r, p) (r', p'). pkgPath p = pkgPath p'
              \<and> mset (package_lines tstr p) = mset (package_lines tstr p')) (zip surfacePackages pkgs) old
          then Passed
          else Drifted (unifiedDiff (surface_text tstr old) (surface_text tstr (zip surfacePackages pkgs))))"
proof -
  have load: "load_surface env n surfacePackages (newLoader root) = Some (Inr (zip surfacePackages pkgs))"
    by (rule load_surface_importable [OF assms(1-5)]) (simp_all add: newLoader_def cache_ok_def)
  have "map fst (zip surfacePackages pkgs) = map fst old" using assms(5,8) by (simp add: list_all2_lengthD)
  from surface_text_eq_iff [OF this assms(10,9)] show ?thesis
    by (simp add: TestGoldenABI_def assms(6,7) load compare_golden_def Let_def)
qed

theorem golden_gate_witness:
  "TestGoldenABI (demo_env (\<lambda>_. []) surfacePackages)
     (demo_host (surface_text (\<lambda>q t. []) (map (\<lambda>rel. (rel, \<lparr>pkgPath = modulePath @ ''/'' @ rel, pkgName = [], pkgScope = []\<rparr>)) surfacePackages)))
     (\<lambda>q t. []) 8 False = Some Passed"
proof -
  let ?env = "demo_env (\<lambda>_. []) surfacePackages"
  let ?p = "\<lambda>rel. \<lparr>pkgPath = modulePath @ ''/'' @ rel, pkgName = modulePath @ ''/'' @ rel, pkgScope = []\<rparr> :: gpackage"
  let ?old = "map (\<lambda>rel. (rel, \<lparr>pkgPath = modulePath @ ''/'' @ rel, pkgName = [], pkgScope = []\<rparr> :: gpackage)) surfacePackages"
  let ?U = "set (map (\<lambda>r. modulePath @ ''/'' @ r) surfacePackages)"
  have U: "\<forall>p files. has_source ?env ''/r'' p files \<longrightarrow> p \<in> ?U"
    by (rule demo_U) (simp add: surfacePackages_def modulePath_def)
  have card: "card ?U < 8" using card_length [of "map (\<lambda>r. modulePath @ ''/'' @ r) surfacePackages"]
    by (simp add: surfacePackages_def)
  have load: "list_all2 (\<lambda>rel. importable ?env ''/r'' (modulePath @ ''/'' @ rel)) surfacePackages (map ?p surfacePackages)"
    using demo_importable [of _ surfacePackages] by (simp add: list_all2_map2 list_all2_same)
  have plain: "list_all (plain_package (\<lambda>q t. [])) ?old"
    "list_all (plain_package (\<lambda>q t. [])) (zip surfacePackages (map ?p surfacePackages))"
    by (simp_all add: plain_package_def package_lines_def surfacePackages_def modulePath_def newline_def)
  have same: "list_all2 (\<lambda>(r, p) (r', p'). pkgPath p = pkgPath p'
      \<and> mset (package_lines (\<lambda>q t. []) p) = mset (package_lines (\<lambda>q t. []) p')) (zip surfacePackages (map ?p surfacePackages)) ?old"
    by (simp add: surfacePackages_def package_lines_def)
  have root: "findModuleRoot (demo_host g) = Inr ''/r''" for g
    by (simp add: findModuleRoot_def demo_host_def root_above.simps path_string_def)
  have golden: "ReadFile (demo_host g) goldenPath = Inr g" for g by (simp add: demo_host_def)
  show ?thesis
    using golden_gate [OF finite_set U demo_strict card load root golden _ plain] same by (simp add: comp_def)
qed

end
