(* ===== verification/Spec2Isabelle.thy ===== *)
theory Spec2Isabelle
  imports Errs_Model Ids_Ulid Idem_Race Idem_Refine Res_Guard Res_BreakerRace Spi_Unit Abi_Loader
begin

text \<open>
  A verification development for \<^verbatim>\<open>plugfy.framework.contracts\<close>, the layer-1 contracts library
  of the Plugfy framework: leaf packages in Go that the upper layers share.

  \<^bold>\<open>The parts of the program and the theories that model them.\<close>

  \<^item> \<^verbatim>\<open>src/errs\<close>, the canonical error model, is \<open>Errs_Model\<close>. The classes and their HTTP
    statuses, \<open>Error\<close> objects in a heap (a list; a \<open>*Error\<close> is an index or nil), \<open>New\<close>,
    \<open>Wrap\<close>, \<open>Classify\<close>, \<open>IsClass\<close>, \<open>Error()\<close>, \<open>Unwrap\<close>, \<open>HTTPStatus\<close>, \<open>WithDetail\<close> and
    \<open>WithDetails\<close>; \<open>errors.As\<close> is the depth-first search of the standard library. Shown: rendering
    terminates on every heap the package builds, wrapping and classification see through
    layers, detail maps merge in any visiting order. \<open>errors.As\<close> and \<open>Error()\<close> reach a unit error by
    its methods \<open>Unwrap\<close> and \<open>Error\<close>.
  \<^item> \<^verbatim>\<open>src/ids\<close>, the ULID generator, is \<open>Ids_Ulid\<close>. \<open>encode\<close> keeps the bit arithmetic of the source
    on 8-bit words; a reference value (the base-256 and base-32 numerals) gives that it is the
    base-32 encoding, that identifiers sort by time and that they are unique when the entropy
    is.
  \<^item> \<^verbatim>\<open>src/idempotency\<close>, the replay store, is \<open>Idem_Store\<close> (every method as one critical section,
    the sweeper, the store contract as the locale \<open>idempotency_store\<close>), \<open>Idem_Race\<close> (the
    interleavings of \<open>Get\<close>, whose read and eviction are two critical sections, and of \<open>Close\<close>,
    as an inductive step relation over the panicking \<open>close\<close> of a channel) and \<open>Idem_Refine\<close> (a map with expiries as the specification,
    and that every history of whole methods and sweeper purges gives its answers).
  \<^item> \<^verbatim>\<open>src/resilience\<close> is \<open>Res_Breaker\<close> (the circuit breaker and the abstract circuit it refines),
    \<open>Res_BreakerRace\<close> (\<open>Breaker.Do\<close> in any number of goroutines: an open breaker drains and
    admits again, late failures prolong the open period),
    \<open>Res_Bulkhead\<close> (the semaphore under any number of goroutines), \<open>Res_World\<close> (the calls back into
    the caller: \<open>Breaker.Do\<close>, \<open>Bulkhead.Do\<close>, \<open>sleepCtx\<close>), \<open>Res_Retry\<close> (the attempt loop, the growth
    of the delay, the jitter) and \<open>Res_Guard\<close> (their composition). \<open>Go_Float\<close> has the float64
    arithmetic the retry policy uses: exact rationals, rounded to 53 bits, ties to even.
  \<^item> \<^verbatim>\<open>src/events\<close>, the CloudEvents envelope, is \<open>Events_Model\<close>.
  \<^item> \<^verbatim>\<open>src/spi\<close> and \<^verbatim>\<open>src/spi/core\<close>, the unit contract, are \<open>Spi_Lifecycle\<close> (interfaces as records
    of functions, the default hooks) and \<open>Spi_Unit\<close> (descriptors, unit errors, the method
    registry and dispatch of \<open>DefaultUnit\<close>, with the registry contract as the locale
    \<open>method_registry\<close>).
  \<^item> \<^verbatim>\<open>src/abi\<close>, the ABI gate, a Go test that freezes the exported surface, is \<open>Abi_Render\<close> (the text
    of the surface and the diff of two texts) and \<open>Abi_Loader\<close> (the recursive loader with its
    cache and cycle detection, the search for the module root, \<open>TestGoldenABI\<close>). Shown: the
    loader ends and loads exactly the importable packages, the test passes exactly when every
    package has the exported lines of the golden text, the diff is the multiset difference of
    the lines; and what the gate does not see.
  \<^item> \<open>Go_Base\<close> is the prelude: 64-bit integers, durations and instants, the outcome of a call, error
    values, map enumerations, and the locales \<open>step_system\<close> and \<open>op_system\<close> of components with an
    invariant and \<open>simulation\<close> of a component by its specification.

  This theory adds what spans packages: the errors of units as the error package sees them.

  \<^bold>\<open>How the parts interact.\<close> The packages do not call each other except that \<open>spi/core\<close> uses the
  event envelope and the lifecycle interfaces; they meet in error values (a unit error or a
  breaker's \<open>ErrOpen\<close> is an \<open>error\<close> that \<open>errs\<close> classifies) and in the guard, which composes the
  three protections around a call.

  \<^bold>\<open>State and effects.\<close> A method with a pointer receiver takes and returns the object's record. A
  method under a mutex is one step, so that concurrent histories are sequences; where a
  method releases the lock in between, the steps are separate. A \<open>func() error\<close> is an action on
  a world record that can be extended, so the callbacks may change anything, the shared breakers
  and bulkheads included; it returns, panics or stays blocked. Readings of clocks, random
  numbers, the choice of a select, the order of a map range, a float conversion out of range (which
  the language leaves open), and what the rest of the program does while a goroutine waits for a
  slot of a bulkhead are arguments, so a theorem holds for all of them. Timers and cancellations
  take effect at their instant: there is no scheduling delay.

  \<^bold>\<open>Bounds and termination.\<close> The attempt loop is a total function by a measure on the attempts left,
  the search for the module root by the length of the path; \<open>Error()\<close> is a partial function in the
  option monad, proved to return. Only the loader has fuel, for the nesting of its imports: more
  than the number of source directories of the module is proved to be enough. Counters,
  durations and delays wrap at 64 bits as in the source. Instants are unbounded integers, for the
  differences saturate in the library. The jitter and multiplier theorems assume delays up to
  \<open>2\<^sup>53\<close> nanoseconds (104 days), the range in which every integer is a float64.

  \<^bold>\<open>What is not modelled.\<close> \<open>json.Marshal\<close> is a parameter, and so are, for the ABI gate, the Go parser,
  type checker, importers and the file system, with the one law that the type checker fails when
  an import has failed; identifiers are ASCII and import paths in canonical spelling. Left out are the tests of the packages, the contents of the golden file,
  the package comment of \<^verbatim>\<open>src/spi/core/doc.go\<close>, scripts, CI and documents. The engine, the runner, the expression evaluator and the stores behind the
  interfaces of \<^verbatim>\<open>src/spi\<close> are in other repositories: only their interfaces are here. A nil receiver
  of \<open>DefaultUnit\<close> and of \<open>UnitError\<close> (which panics), panics of the callbacks \<open>Retryable\<close> and \<open>sleep\<close>,
  and fused multiply-add, which the Go specification allows on some architectures, are left out.
\<close>

section \<open>Errors across packages\<close>

text \<open>An unknown method at the boundary. The error with which a unit answers a method nobody
  registered counts as internal for \<open>errs.Classify\<close>, although \<open>errs\<close> has a class for what is
  not found; a caller that wraps it as \<open>ClassNotFound\<close> gets a new \<open>*Error\<close> with status 404, whose
  cause is the unit's error, and no other error object changes.\<close>

lemma unknown_method_status:
  assumes "map_of (rev rs) m = None"
    and "DefaultUnit_Invoke (register_all rs (zero_DefaultUnit\<lparr>Desc := d\<rparr>)) m ctx a w = (Returns (out, err), w')"
    and "errs_Wrap h err ClassNotFound code msg = (p, h')"
  shows "w' = w \<and> Classify h err = ClassInternal \<and> Error_HTTPStatus h' p = 404
    \<and> Error_Unwrap h' p = err \<and> Classify h' (as_error p) = ClassNotFound \<and> take (length h) h' = h"
proof -
  have "handler_lookup (register_all rs (zero_DefaultUnit\<lparr>Desc := d\<rparr>)) m = None"
    using assms(1) by (simp add: du.look_chain zero_no_handlers)
  then have "err = unit_as_error (ErrMethodNotFound m)" and "w' = w"
    using assms(2) by (auto simp: DefaultUnit_Invoke_def)
  then show ?thesis
    using assms(3)
    by (auto simp: unit_as_error_def ErrMethodNotFound_def UnitError_Unwrap_def errs_Wrap_def Classify_def as_error_def
        Error_HTTPStatus_def Error_Unwrap_def Class_HTTPStatus_def class_defs)
qed

text \<open>C39: classification follows the cause of a unit error. When a registered handler fails with a
  \<open>UnitError\<close> whose cause carries an \<open>*errs.Error\<close>, however many layers of wrapping lie on
  either side, the error that \<open>Invoke\<close> returns has the class of that object, and \<open>Wrap\<close>
  returns the object itself instead of classifying the error anew.\<close>

theorem unit_error_cause_classified:
  assumes "map_of (rev rs) m = Some (Some f)"
    and "f ctx a w = (Returns (out, unit_as_error u), w')"
    and "ueCause u = Some (fold (\<lambda>(i, t). Errorf_w i t) inner (ErrsPtr (Some p)))"
  shows "\<exists>e. DefaultUnit_Invoke (register_all rs (zero_DefaultUnit\<lparr>Desc := d\<rparr>)) m ctx a w = (Returns (out, Some e), w')
    \<and> Classify h (Some (fold (\<lambda>(i, t). Errorf_w i t) outer e)) = eClass (h ! p)
    \<and> errs_Wrap h (Some (fold (\<lambda>(i, t). Errorf_w i t) outer e)) c k t = (Some p, h)"
proof -
  have layers: "errors_As (fold (\<lambda>(i, t). Errorf_w i t) ls e) = errors_As e" for ls e
    by (induction ls arbitrary: e) (auto simp: Errorf_w_def split: option.split)
  have "handler_lookup (register_all rs (zero_DefaultUnit\<lparr>Desc := d\<rparr>)) m = Some (Some f)"
    using assms(1) by (simp add: du.look_chain)
  then have "DefaultUnit_Invoke (register_all rs (zero_DefaultUnit\<lparr>Desc := d\<rparr>)) m ctx a w =
      (Returns (out, unit_as_error u), w')"
    using assms(2) by (simp add: DefaultUnit_Invoke_def)
  then show ?thesis
    using assms(3)
    by (auto simp: unit_as_error_def UnitError_Unwrap_def Classify_def errs_Wrap_def layers)
qed

theorem unit_error_cause_classified_witness:
  "\<forall>ctx. \<exists>e. DefaultUnit_Invoke (register_all [(''m'', Some (\<lambda>ctx a w. (Returns (None, unit_as_error
         (UnitError ''x'' ''transient'' ''down'' (Some (Errorf_w 1 ''q'' (ErrsPtr (Some 0)))))), w)))]
       (zero_DefaultUnit\<lparr>Desc := zero_UnitDescriptor\<rparr> :: (nat, nat) DefaultUnit)) ''m'' ctx None 0 = (Returns (None, Some e), 0)
     \<and> Classify [\<lparr>eClass = ClassTimeout, eCode = [], eMessage = [], eDetails = None :: (string \<rightharpoonup> nat) option, wrapped = None\<rparr>]
         (Some (Errorf_w 2 ''outer'' e)) = ClassTimeout"
proof
  fix ctx :: "(nat, nat) UnitContext"
  let ?u = "(UnitError ''x'' ''transient'' ''down'' (Some (Errorf_w 1 ''q'' (ErrsPtr (Some 0)))))"
  let ?h = "[\<lparr>eClass = ClassTimeout, eCode = [], eMessage = [], eDetails = None :: (string \<rightharpoonup> nat) option, wrapped = None\<rparr>]"
  let ?f = "\<lambda>ctx a w. (Returns (None, unit_as_error ?u), w)"
  show "\<exists>e. DefaultUnit_Invoke (register_all [(''m'', Some ?f)]
       (zero_DefaultUnit\<lparr>Desc := zero_UnitDescriptor\<rparr> :: (nat, nat) DefaultUnit)) ''m'' ctx None 0 = (Returns (None, Some e), 0)
     \<and> Classify ?h (Some (Errorf_w 2 ''outer'' e)) = ClassTimeout"
    using unit_error_cause_classified [of "[(''m'', Some ?f)]" "''m''" ?f ctx "None :: nat args" "0 :: nat" None ?u 0
        "[(1, ''q'')]" 0 zero_UnitDescriptor ?h "[(2, ''outer'')]" "''c''" "''k''" "''t''"]
    by auto
qed

end
